theory Spec2Isabelle
  imports
    Complex_Main
    "HOL-Library.Word"
    "HOL-Library.List_Lexorder"
    "HOL-Library.AList"
    "HOL-Library.Extended_Nat"
begin

section \<open>Strings and sources\<close>

text \<open>
  A JavaScript string is a sequence of UTF-16 code units. The default \<^verbatim>\<open>Array.prototype.sort\<close>
  compares strings code unit by code unit, a proper prefix first, which is the lexicographic
  order on lists of 16-bit words (theory List_Lexorder of the library).
\<close>

type_synonym jsstring = "16 word list"

definition ascii :: "string \<Rightarrow> jsstring" where
  "ascii s = map (\<lambda>c. of_nat (of_char c)) s"

text \<open>The code unit of \<^verbatim>\<open>'|'\<close> (U+007C).\<close>

definition bar :: "16 word" where
  "bar = 124"

text \<open>
  \<^verbatim>\<open>interface Source { title?: string; url: string; snippet?: string; published?: string }\<close>
  (\<^verbatim>\<open>types.ts\<close>); an absent optional field is \<open>None\<close>. The schema of the command-line
  program adds an optional \<^verbatim>\<open>score\<close>, which none of the functions below reads.
\<close>

record Source =
  title :: "jsstring option"
  url :: jsstring
  snippet :: "jsstring option"
  published :: "jsstring option"

text \<open>\<^verbatim>\<open>Array.prototype.join\<close> on an array of strings.\<close>

fun join :: "jsstring \<Rightarrow> jsstring list \<Rightarrow> jsstring" where
  "join sep [] = []"
| "join sep [x] = x"
| "join sep (x # y # ys) = x @ sep @ join sep (y # ys)"

section \<open>ValidationCache (\<^verbatim>\<open>cache.ts\<close>)\<close>

text \<open>
  \<^verbatim>\<open>private cache = new Map<string, { data: any; timestamp: number }>()\<close>.
  A JavaScript \<^verbatim>\<open>Map\<close> iterates in insertion order, \<^verbatim>\<open>set\<close> on a present key
  keeps the key's position and \<^verbatim>\<open>delete\<close> removes the key: an association list with
  \<^const>\<open>AList.update\<close>, \<^const>\<open>AList.delete\<close> and \<^const>\<open>map_of\<close>. \<^verbatim>\<open>Date.now()\<close>
  is an argument \<open>now\<close> (milliseconds) of every operation that reads the clock.
\<close>

record 'v CacheItem =
  data :: 'v
  timestamp :: int

record 'v ValidationCache =
  cache :: "(jsstring \<times> 'v CacheItem) list"
  maxSize :: int
  ttl :: int

text \<open>\<^verbatim>\<open>new ValidationCache(maxSize, ttlMs)\<close>\<close>

definition ValidationCache_new :: "int \<Rightarrow> int \<Rightarrow> 'v ValidationCache" where
  "ValidationCache_new maxSize' ttlMs = \<lparr>cache = [], maxSize = maxSize', ttl = ttlMs\<rparr>"

text \<open>
  \<^verbatim>\<open>const sourceUrls = sources.map(s => s.url).sort().join('|');\<close>
  \<^verbatim>\<open>return `${fact || ''}|${sourceUrls}`;\<close>
  For a string, \<^verbatim>\<open>fact || ''\<close> is \<^verbatim>\<open>fact\<close> itself.
\<close>

definition generateKey :: "jsstring \<Rightarrow> Source list \<Rightarrow> jsstring" where
  "generateKey fact' sources =
     (let sourceUrls = join [bar] (sort (map url sources))
      in fact' @ [bar] @ sourceUrls)"

text \<open>
  \<^verbatim>\<open>get(fact, sources)\<close>: \<open>None\<close> is the \<^verbatim>\<open>null\<close> of a miss. The call deletes an
  expired entry, so the cache is returned as well.
\<close>

definition ValidationCache_get ::
  "jsstring \<Rightarrow> Source list \<Rightarrow> int \<Rightarrow> 'v ValidationCache \<Rightarrow> 'v option \<times> 'v ValidationCache" where
  "ValidationCache_get fact' sources now c =
     (if fact' = [] then (None, c)
      else
        let key = generateKey fact' sources in
        case map_of (cache c) key of
          None \<Rightarrow> (None, c)
        | Some item \<Rightarrow>
            if now - timestamp item > ttl c
            then (None, c\<lparr>cache := AList.delete key (cache c)\<rparr>)
            else (Some (data item), c))"

text \<open>
  \<^verbatim>\<open>set(fact, sources, data)\<close>. When the map is full its first key (the oldest
  insertion) is deleted, provided that key is truthy, that is, a non-empty string.
\<close>

definition evictOldest :: "(jsstring \<times> 'v CacheItem) list \<Rightarrow> (jsstring \<times> 'v CacheItem) list" where
  "evictOldest m =
     (case m of
        [] \<Rightarrow> m
      | (oldestKey, _) # _ \<Rightarrow> if oldestKey \<noteq> [] then AList.delete oldestKey m else m)"

definition ValidationCache_set ::
  "jsstring \<Rightarrow> Source list \<Rightarrow> 'v \<Rightarrow> int \<Rightarrow> 'v ValidationCache \<Rightarrow> 'v ValidationCache" where
  "ValidationCache_set fact' sources d now c =
     (if fact' = [] then c
      else
        let key = generateKey fact' sources;
            m = (if int (length (cache c)) \<ge> maxSize c then evictOldest (cache c) else cache c)
        in c\<lparr>cache := AList.update key \<lparr>data = d, timestamp = now\<rparr> m\<rparr>)"

text \<open>A source object carrying only a URL, for the concrete runs below.\<close>

definition urlOnly :: "jsstring \<Rightarrow> Source" where
  "urlOnly u = \<lparr>title = None, url = u, snippet = None, published = None\<rparr>"

section \<open>Source diversification (\<^verbatim>\<open>diversifySources\<close> and its helpers)\<close>

text \<open>
  \<^verbatim>\<open>function domainOf(url) { try { return new URL(url).hostname; } catch { return ''; } }\<close>
  The URL parser of the platform is a parameter \<open>hostname\<close>: \<open>None\<close> when
  \<^verbatim>\<open>new URL(url)\<close> throws, the host name otherwise.
\<close>

type_synonym urlParser = "jsstring \<Rightarrow> jsstring option"

definition domainOf :: "urlParser \<Rightarrow> jsstring \<Rightarrow> jsstring" where
  "domainOf hostname u = (case hostname u of Some h \<Rightarrow> h | None \<Rightarrow> [])"

text \<open>
  \<^verbatim>\<open>hasCJK(s)\<close> tests \<^verbatim>\<open>s || ''\<close> against a character class of three ranges of
  code units: 4e00 to 9fff, 3040 to 30ff and ac00 to d7af (hexadecimal). The regular expression
  has no \<^verbatim>\<open>u\<close> flag, so it looks at single code units.
\<close>

definition isCJKUnit :: "16 word \<Rightarrow> bool" where
  "isCJKUnit c \<longleftrightarrow>
     (0x4e00 \<le> c \<and> c \<le> 0x9fff) \<or> (0x3040 \<le> c \<and> c \<le> 0x30ff) \<or> (0xac00 \<le> c \<and> c \<le> 0xd7af)"

definition hasCJK :: "jsstring \<Rightarrow> bool" where
  "hasCJK s = list_ex isCJKUnit s"

text \<open>\<^verbatim>\<open>x || ''\<close> for an optional string.\<close>

definition orEmpty :: "jsstring option \<Rightarrow> jsstring" where
  "orEmpty x = (case x of Some t \<Rightarrow> t | None \<Rightarrow> [])"

text \<open>
  \<^verbatim>\<open>const t = (title || '') + ' ' + (snippet || '') + ' ' + (url || ''); return !hasCJK(t);\<close>
\<close>

definition isEnglishLike :: "jsstring option \<Rightarrow> jsstring option \<Rightarrow> jsstring option \<Rightarrow> bool" where
  "isEnglishLike title' snippet' url' =
     (let t = orEmpty title' @ [32] @ orEmpty snippet' @ [32] @ orEmpty url'
      in \<not> hasCJK t)"

text \<open>
  \<^verbatim>\<open>picked.includes(s)\<close> compares object identities, not field values. A source object of
  the pool is therefore its identity (a reference) paired with its fields.
\<close>

type_synonym SourceObj = "nat \<times> Source"

definition includesObj :: "SourceObj list \<Rightarrow> SourceObj \<Rightarrow> bool" where
  "includesObj xs s \<longleftrightarrow> fst s \<in> fst ` set xs"

text \<open>
  The local variables of \<^verbatim>\<open>diversifySources\<close>: \<^verbatim>\<open>byDomain\<close> (a \<^verbatim>\<open>Map\<close> from domain to
  count), \<^verbatim>\<open>picked\<close> and \<^verbatim>\<open>enCount\<close>.
\<close>

record DiversifyState =
  byDomain :: "jsstring \<rightharpoonup> int"
  picked :: "SourceObj list"
  enCount :: int

text \<open>\<^verbatim>\<open>byDomain.get(d) || 0\<close>\<close>

definition usedOf :: "(jsstring \<rightharpoonup> int) \<Rightarrow> jsstring \<Rightarrow> int" where
  "usedOf m d = (case m d of Some n \<Rightarrow> n | None \<Rightarrow> 0)"

text \<open>
  The module constants \<^verbatim>\<open>MAX_PER_DOMAIN = Number(process.env.MAX_PER_DOMAIN || '2')\<close> and
  \<^verbatim>\<open>MIN_EN_SOURCES = Number(process.env.MIN_EN_SOURCES || '3')\<close> are arguments.

  The first loop: \<^verbatim>\<open>continue\<close> when the domain is at its cap, otherwise admit the source and
  \<^verbatim>\<open>break\<close> once \<^verbatim>\<open>picked.length >= k\<close>.
\<close>

fun greedyPass :: "urlParser \<Rightarrow> int \<Rightarrow> int \<Rightarrow> SourceObj list \<Rightarrow> DiversifyState \<Rightarrow> DiversifyState" where
  "greedyPass hostname MAX_PER_DOMAIN k [] st = st"
| "greedyPass hostname MAX_PER_DOMAIN k (s # rest) st =
     (let d = domainOf hostname (url (snd s));
          used = usedOf (byDomain st) d
      in if used \<ge> MAX_PER_DOMAIN then greedyPass hostname MAX_PER_DOMAIN k rest st
         else
           let st' = st\<lparr>picked := picked st @ [s],
                        byDomain := (byDomain st)(d \<mapsto> used + 1),
                        enCount := (if isEnglishLike (title (snd s)) (snippet (snd s)) (Some (url (snd s)))
                                    then enCount st + 1 else enCount st)\<rparr>
           in if int (length (picked st')) \<ge> k then st'
              else greedyPass hostname MAX_PER_DOMAIN k rest st')"

text \<open>
  The second loop, entered when \<^verbatim>\<open>enCount < MIN_EN_SOURCES\<close>: sources already picked, sources
  that are not English-like and sources of a domain at its cap are skipped; the loop ends once
  \<^verbatim>\<open>enCount >= MIN_EN_SOURCES || picked.length >= k + 3\<close>.
\<close>

fun backfillPass ::
  "urlParser \<Rightarrow> int \<Rightarrow> int \<Rightarrow> int \<Rightarrow> SourceObj list \<Rightarrow> DiversifyState \<Rightarrow> DiversifyState" where
  "backfillPass hostname MAX_PER_DOMAIN MIN_EN_SOURCES k [] st = st"
| "backfillPass hostname MAX_PER_DOMAIN MIN_EN_SOURCES k (s # rest) st =
     (if includesObj (picked st) s then backfillPass hostname MAX_PER_DOMAIN MIN_EN_SOURCES k rest st
      else if \<not> isEnglishLike (title (snd s)) (snippet (snd s)) (Some (url (snd s)))
        then backfillPass hostname MAX_PER_DOMAIN MIN_EN_SOURCES k rest st
      else
        let d = domainOf hostname (url (snd s));
            used = usedOf (byDomain st) d
        in if used \<ge> MAX_PER_DOMAIN then backfillPass hostname MAX_PER_DOMAIN MIN_EN_SOURCES k rest st
           else
             let st' = st\<lparr>picked := picked st @ [s],
                          byDomain := (byDomain st)(d \<mapsto> used + 1),
                          enCount := enCount st + 1\<rparr>
             in if enCount st' \<ge> MIN_EN_SOURCES \<or> int (length (picked st')) \<ge> k + 3 then st'
                else backfillPass hostname MAX_PER_DOMAIN MIN_EN_SOURCES k rest st')"

text \<open>
  \<^verbatim>\<open>picked.slice(0, k)\<close> for an integer \<^verbatim>\<open>k\<close>: a negative end counts from the end of the
  array.
\<close>

definition slice0 :: "'a list \<Rightarrow> int \<Rightarrow> 'a list" where
  "slice0 xs k = (if k < 0 then take (nat (int (length xs) + k)) xs else take (nat k) xs)"

definition diversifyInit :: DiversifyState where
  "diversifyInit = \<lparr>byDomain = Map.empty, picked = [], enCount = 0\<rparr>"

definition afterGreedy :: "urlParser \<Rightarrow> int \<Rightarrow> SourceObj list \<Rightarrow> int \<Rightarrow> DiversifyState" where
  "afterGreedy hostname MAX_PER_DOMAIN sources k =
     greedyPass hostname MAX_PER_DOMAIN k sources diversifyInit"

definition afterBackfill ::
  "urlParser \<Rightarrow> int \<Rightarrow> int \<Rightarrow> SourceObj list \<Rightarrow> int \<Rightarrow> DiversifyState" where
  "afterBackfill hostname MAX_PER_DOMAIN MIN_EN_SOURCES sources k =
     (let st = afterGreedy hostname MAX_PER_DOMAIN sources k
      in if enCount st < MIN_EN_SOURCES
         then backfillPass hostname MAX_PER_DOMAIN MIN_EN_SOURCES k sources st
         else st)"

definition diversifySources ::
  "urlParser \<Rightarrow> int \<Rightarrow> int \<Rightarrow> SourceObj list \<Rightarrow> int \<Rightarrow> SourceObj list" where
  "diversifySources hostname MAX_PER_DOMAIN MIN_EN_SOURCES sources k =
     slice0 (picked (afterBackfill hostname MAX_PER_DOMAIN MIN_EN_SOURCES sources k)) k"

text \<open>The number of sources of a list whose URL resolves to the domain \<open>d\<close>.\<close>

definition domainCount :: "urlParser \<Rightarrow> jsstring \<Rightarrow> SourceObj list \<Rightarrow> int" where
  "domainCount hostname d xs = int (length (filter (\<lambda>s. domainOf hostname (url (snd s)) = d) xs))"

text \<open>
  The loop invariant of both passes: \<^verbatim>\<open>byDomain\<close> holds, for every domain, the number of
  picked sources of that domain, and no count exceeds the cap.
\<close>

definition capInv :: "urlParser \<Rightarrow> int \<Rightarrow> DiversifyState \<Rightarrow> bool" where
  "capInv hostname M st \<longleftrightarrow>
     (\<forall>d. domainCount hostname d (picked st) = usedOf (byDomain st) d \<and>
          usedOf (byDomain st) d \<le> max 0 M)"

text \<open>
  A source that the second loop will skip whatever else it does: it is already picked, or its
  domain is at the cap.
\<close>

definition settled :: "urlParser \<Rightarrow> int \<Rightarrow> DiversifyState \<Rightarrow> SourceObj \<Rightarrow> bool" where
  "settled hostname M st s \<longleftrightarrow>
     includesObj (picked st) s \<or> usedOf (byDomain st) (domainOf hostname (url (snd s))) \<ge> M"

text \<open>
  Concrete inputs for the runs below: a URL parser that knows four URLs on two hosts, a
  Japanese source with a title of two CJK code units and three English ones.
\<close>

definition exampleHost :: urlParser where
  "exampleHost u =
     (if u = ascii ''https://a.jp/x'' then Some (ascii ''a.jp'')
      else if u = ascii ''https://a.jp/y'' then Some (ascii ''a.jp'')
      else if u = ascii ''https://a.jp/z'' then Some (ascii ''a.jp'')
      else if u = ascii ''https://b.com/y'' then Some (ascii ''b.com'')
      else None)"

definition mkObj :: "nat \<Rightarrow> jsstring \<Rightarrow> jsstring \<Rightarrow> SourceObj" where
  "mkObj r t u = (r, \<lparr>title = Some t, url = u, snippet = None, published = None\<rparr>)"

definition cjkSource :: SourceObj where
  "cjkSource = mkObj 0 [0x4e2d, 0x6587] (ascii ''https://a.jp/x'')"

definition enSource :: SourceObj where
  "enSource = mkObj 1 (ascii ''News'') (ascii ''https://b.com/y'')"

definition enSourceA2 :: SourceObj where
  "enSourceA2 = mkObj 2 (ascii ''Tokyo'') (ascii ''https://a.jp/y'')"

definition enSourceA3 :: SourceObj where
  "enSourceA3 = mkObj 3 (ascii ''Osaka'') (ascii ''https://a.jp/z'')"

section \<open>The stage budget (\<^verbatim>\<open>msLeft\<close>, \<^verbatim>\<open>withBudget\<close>)\<close>


text \<open>
  What a call of a \<^verbatim>\<open>() => Promise<T>\<close> does: it throws before returning, or it returns a
  promise. A promise is fulfilled or rejected some milliseconds after the call, or stays
  pending for ever. A thrown value is an \<^verbatim>\<open>Error\<close> with its message, or something else.
\<close>

datatype thrown = ErrorObj jsstring | OtherValue

datatype 'a settlement = Fulfilled 'a | Rejected thrown












section \<open>CredibilityEvaluator (\<^verbatim>\<open>credibility.ts\<close>): source quality and confidence\<close>














subsection \<open>The confidence formula in words\<close>










section \<open>ParallelProcessor (\<^verbatim>\<open>cache.ts\<close>)\<close>

text \<open>
  JavaScript runs one piece of code at a time, so the executor is a state machine whose steps
  are the calls of \<^verbatim>\<open>add\<close> and the resumptions of a wrapper after its
  \<^verbatim>\<open>await task()\<close>. What a task does when it is called is known when it is added: it throws
  before returning a promise, or it returns a promise and the wrapper suspends.
\<close>

datatype start = StartThrows thrown | StartAwaits

text \<open>
  The fields of the class are \<^verbatim>\<open>maxConcurrent\<close>, \<^verbatim>\<open>running\<close> and \<^verbatim>\<open>queue\<close> (the
  queued wrappers, each with the number of its task). The other fields record what the
  program holds implicitly: the wrappers suspended at \<^verbatim>\<open>await task()\<close>, the settlement of
  the promise that \<^verbatim>\<open>add\<close> returned for each task (absent while it is pending), the number
  of the next task, and the largest value \<^verbatim>\<open>running\<close> has had.
\<close>

record 'a ParallelProcessor =
  maxConcurrent :: int
  running :: int
  queue :: "(nat \<times> start) list"
  awaiting :: "nat list"
  handles :: "nat \<rightharpoonup> 'a settlement"
  nextId :: nat
  peak :: int


text \<open>\<^verbatim>\<open>this.running++\<close>\<close>

definition incRunning :: "'a ParallelProcessor \<Rightarrow> 'a ParallelProcessor" where
  "incRunning st = st\<lparr>running := running st + 1, peak := max (peak st) (running st + 1)\<rparr>"

text \<open>
  \<^verbatim>\<open>while (this.queue.length > 0 && this.running < this.maxConcurrent)\<close>
  \<^verbatim>\<open>{ const task = this.queue.shift(); if (task) task(); }\<close>
  The call \<^verbatim>\<open>task()\<close> runs the wrapper up to its first suspension: \<^verbatim>\<open>this.running++\<close>,
  then \<^verbatim>\<open>await task()\<close>. When the task throws at once, the wrapper goes on through
  \<^verbatim>\<open>catch\<close> (\<^verbatim>\<open>reject(error)\<close>) and \<^verbatim>\<open>finally\<close> (\<^verbatim>\<open>this.running--\<close> and a nested
  \<^verbatim>\<open>processQueue()\<close>) before the loop continues. The recursion is nested, so the function
  is defined as a partial one; that it always returns is proved below.
\<close>

partial_function (option) processQueue :: "'a ParallelProcessor \<Rightarrow> 'a ParallelProcessor option" where
  "processQueue st =
     (if length (queue st) > 0 \<and> running st < maxConcurrent st then
        (case queue st of
           [] \<Rightarrow> Some st
         | (tid, task') # rest \<Rightarrow>
             let st1 = st\<lparr>queue := rest\<rparr>;
                 st2 = incRunning st1
             in (case task' of
                   StartAwaits \<Rightarrow> processQueue (st2\<lparr>awaiting := awaiting st2 @ [tid]\<rparr>)
                 | StartThrows e \<Rightarrow>
                     Option.bind
                       (processQueue (st2\<lparr>handles := (handles st2)(tid \<mapsto> Rejected e),
                                          running := running st2 - 1\<rparr>))
                       processQueue))
      else Some st)"

text \<open>
  The wrapper of \<^verbatim>\<open>add\<close>, from its call to its first suspension or, when the task throws at
  once, to its end.
\<close>

definition wrappedTask :: "nat \<Rightarrow> start \<Rightarrow> 'a ParallelProcessor \<Rightarrow> 'a ParallelProcessor option" where
  "wrappedTask tid task' st =
     (let st2 = incRunning st
      in (case task' of
            StartAwaits \<Rightarrow> Some (st2\<lparr>awaiting := awaiting st2 @ [tid]\<rparr>)
          | StartThrows e \<Rightarrow>
              processQueue (st2\<lparr>handles := (handles st2)(tid \<mapsto> Rejected e),
                                running := running st2 - 1\<rparr>)))"

text \<open>
  The rest of a suspended wrapper, run when the promise of its task settles:
  \<^verbatim>\<open>resolve(result)\<close> or \<^verbatim>\<open>reject(error)\<close>, then \<^verbatim>\<open>this.running--\<close> and
  \<^verbatim>\<open>this.processQueue()\<close>. A settlement for a task that is not suspended changes nothing.
\<close>

definition settle :: "nat \<Rightarrow> 'a settlement \<Rightarrow> 'a ParallelProcessor \<Rightarrow> 'a ParallelProcessor option" where
  "settle tid r st =
     (if tid \<in> set (awaiting st)
      then processQueue (st\<lparr>awaiting := remove1 tid (awaiting st),
                            handles := (handles st)(tid \<mapsto> r),
                            running := running st - 1\<rparr>)
      else Some st)"

text \<open>
  \<^verbatim>\<open>add(task)\<close>:
  \<^verbatim>\<open>if (this.running < this.maxConcurrent) wrappedTask(); else this.queue.push(wrappedTask);\<close>
\<close>

definition add :: "start \<Rightarrow> 'a ParallelProcessor \<Rightarrow> 'a ParallelProcessor option" where
  "add task' st =
     (let tid = nextId st; st0 = st\<lparr>nextId := tid + 1\<rparr>
      in if running st0 < maxConcurrent st0 then wrappedTask tid task' st0
         else Some (st0\<lparr>queue := queue st0 @ [(tid, task')]\<rparr>))"

datatype 'a event = Add start | Settle nat "'a settlement"

definition step :: "'a event \<Rightarrow> 'a ParallelProcessor \<Rightarrow> 'a ParallelProcessor option" where
  "step ev st = (case ev of Add task' \<Rightarrow> add task' st | Settle tid r \<Rightarrow> settle tid r st)"







section \<open>The pipeline orchestrators (\<^verbatim>\<open>runPipeline\<close>)\<close>

subsection \<open>Data\<close>

datatype SpeedMode = fast | balanced | thorough

datatype LangCode = lang_auto | lang_en | lang_zh_TW | lang_ja | lang_ko

datatype Topic = general | news

record RouterPlan =
  useWeb :: bool
  topic :: Topic
  steps :: "jsstring list"
  maxIterations :: int

text \<open>
  \<^verbatim>\<open>interface Settings\<close>; its field \<^verbatim>\<open>useWeb\<close> is \<open>settingsUseWeb\<close> here, the name
  being taken by the plan.
\<close>

record Settings =
  speedMode :: SpeedMode
  lang :: LangCode
  settingsUseWeb :: bool
  timeLimitMs :: "int option"
  minEnSources :: "int option"
  maxPerDomain :: "int option"
  queryExpansion :: "bool option"

text \<open>\<^verbatim>\<open>interface Fact\<close>, with \<^verbatim>\<open>source\<close> and \<^verbatim>\<open>published\<close> renamed likewise.\<close>

record Fact =
  statement :: jsstring
  factSource :: jsstring
  evidence :: "jsstring option"
  factPublished :: "jsstring option"

datatype Verdict = SUPPORTED | WEAK | NO_EVIDENCE | CONTRADICTED

record FactCheckReport =
  claims :: "(jsstring \<times> Verdict) list"
  summary :: "jsstring option"

record TokenUsage =
  prompt :: int
  completion :: int
  total :: int

text \<open>
  The payload of an event: the values the pipelines pass to \<^verbatim>\<open>emit\<close>. An object literal
  is the list of its properties; \<open>POpaque\<close> stands for a value made outside the pipeline.
\<close>

datatype payload =
    PString jsstring
  | PNumber int
  | PObject "(string \<times> payload) list"
  | PPlan RouterPlan
  | PSources "Source list"
  | PFacts "Fact list"
  | PReport FactCheckReport
  | PUsage TokenUsage
  | POpaque nat

type_synonym emitted = "string \<times> payload"

datatype stage = Router | Search | Research | Analysis | Writing | FactCheck | Critique | Credibility

text \<open>
  What a run leaves behind: the events emitted, in order. Two more lists are kept for the
  statements below and have no counterpart in the program: the stages whose work was called,
  and the stages whose work threw, each with the thrown value.
\<close>

record PipelineRun =
  events :: "emitted list"
  invoked :: "stage list"
  failed :: "(stage \<times> thrown) list"

definition emptyRun :: PipelineRun where
  "emptyRun = \<lparr>events = [], invoked = [], failed = []\<rparr>"

text \<open>\<^verbatim>\<open>await emit(event, payload)\<close>: the event sink records the event and does not throw.\<close>

definition emit :: "string \<Rightarrow> payload \<Rightarrow> PipelineRun \<Rightarrow> PipelineRun" where
  "emit name p run = run\<lparr>events := events run @ [(name, p)]\<rparr>"

subsection \<open>String literals of the pipelines, as UTF-16 code units\<close>

text \<open>The literal of the fallback error text (in English: unknown error).\<close>

definition unknownError :: jsstring where
  "unknownError = [0x672a, 0x77e5, 0x9519, 0x8bef]"

text \<open>The message of the router stage (router planning failed).\<close>

definition msgRouterFailed :: jsstring where
  "msgRouterFailed = [0x8def, 0x7531, 0x5668, 0x89c4, 0x5212, 0x5931, 0x8d25]"

text \<open>The message of the search stage of the unified pipeline (web search failed).\<close>

definition msgWebSearchFailed :: jsstring where
  "msgWebSearchFailed = [0x7f51, 0x7edc, 0x641c, 0x7d22, 0x5931, 0x8d25]"

text \<open>The message of the research stage (fact extraction failed).\<close>

definition msgExtractFailed :: jsstring where
  "msgExtractFailed = [0x4e8b, 0x5b9e, 0x63d0, 0x53d6, 0x5931, 0x8d25]"

text \<open>The message of the analysis stage (analysis failed).\<close>

definition msgAnalysisFailed :: jsstring where
  "msgAnalysisFailed = [0x5206, 0x6790, 0x5931, 0x8d25]"

text \<open>The analysis text substituted when the analysis stage yields none.\<close>

definition defaultAnalysis :: jsstring where
  "defaultAnalysis = [0x5206, 0x6790, 0x5931, 0x8d25, 0xff0c, 0x5c06, 0x57fa, 0x4e8e, 0x4e8b, 0x5b9e, 0x76f4, 0x63a5, 0x751f, 0x6210, 0x56de, 0x7b54]"

text \<open>The message of the writing stage (writing failed).\<close>

definition msgWritingFailed :: jsstring where
  "msgWritingFailed = [0x5199, 0x4f5c, 0x5931, 0x8d25]"

text \<open>The message of the fact-check stage (fact check failed).\<close>

definition msgFactCheckFailed :: jsstring where
  "msgFactCheckFailed = [0x4e8b, 0x5b9e, 0x67e5, 0x6838, 0x5931, 0x8d25]"

text \<open>The message of the critique stage (critique failed).\<close>

definition msgCritiqueFailed :: jsstring where
  "msgCritiqueFailed = [0x8bc4, 0x8bba, 0x5931, 0x8d25]"

text \<open>The message of the outer handlers (pipeline execution failed).\<close>

definition msgPipelineFailed :: jsstring where
  "msgPipelineFailed = [0x6d41, 0x7a0b, 0x6267, 0x884c, 0x5931, 0x8d25]"

text \<open>The constant that \<^verbatim>\<open>getCurrentResponse\<close> returns.\<close>

definition currentResponsePlaceholder :: jsstring where
  "currentResponsePlaceholder = [0x5f53, 0x524d, 0x54cd, 0x5e94, 0x5185, 0x5bb9]"

text \<open>The message of the search stage of \<^verbatim>\<open>ResearchPipeline\<close> (search failed).\<close>

definition msgSearchFailed :: jsstring where
  "msgSearchFailed = [0x641c, 0x7d22, 0x5931, 0x8d25]"

text \<open>The message of the credibility assessment (credibility assessment failed).\<close>

definition msgCredibilityFailed :: jsstring where
  "msgCredibilityFailed = [0x53ef, 0x4fe1, 0x5ea6, 0x8bc4, 0x4f30, 0x5931, 0x8d25]"

text \<open>The status messages of \<^verbatim>\<open>ResearchPipeline\<close>, in the order of its stages.\<close>

definition statusRouter :: jsstring where
  "statusRouter = [0x6b63, 0x5728, 0x5206, 0x6790, 0x95ee, 0x9898, 0x5e76, 0x5236, 0x5b9a, 0x7814, 0x7a76, 0x8ba1, 0x5212, 0x2e, 0x2e, 0x2e]"

definition statusSearch :: jsstring where
  "statusSearch = [0x6b63, 0x5728, 0x641c, 0x7d22, 0x76f8, 0x5173, 0x4fe1, 0x606f, 0x2e, 0x2e, 0x2e]"

definition statusResearch :: jsstring where
  "statusResearch = [0x6b63, 0x5728, 0x63d0, 0x53d6, 0x548c, 0x5206, 0x6790, 0x4e8b, 0x5b9e, 0x2e, 0x2e, 0x2e]"

definition statusAnalysis :: jsstring where
  "statusAnalysis = [0x6b63, 0x5728, 0x5206, 0x6790, 0x4e8b, 0x5b9e, 0x5e76, 0x63d0, 0x4f9b, 0x89c1, 0x89e3, 0x2e, 0x2e, 0x2e]"

definition statusWriting :: jsstring where
  "statusWriting = [0x6b63, 0x5728, 0x64b0, 0x5199, 0x7efc, 0x5408, 0x56de, 0x7b54, 0x2e, 0x2e, 0x2e]"

definition statusFactcheck :: jsstring where
  "statusFactcheck = [0x6b63, 0x5728, 0x9a8c, 0x8bc1, 0x4e8b, 0x5b9e, 0x51c6, 0x786e, 0x6027, 0x2e, 0x2e, 0x2e]"

definition statusCritique :: jsstring where
  "statusCritique = [0x6b63, 0x5728, 0x63d0, 0x4f9b, 0x6539, 0x8fdb, 0x5efa, 0x8bae, 0x2e, 0x2e, 0x2e]"

definition statusCredibility :: jsstring where
  "statusCredibility = [0x6b63, 0x5728, 0x8bc4, 0x4f30, 0x5185, 0x5bb9, 0x53ef, 0x4fe1, 0x5ea6, 0x2e, 0x2e, 0x2e]"

definition statusComplete :: jsstring where
  "statusComplete = [0x7814, 0x7a76, 0x5b8c, 0x6210, 0xff01]"

text \<open>\<^verbatim>\<open>error instanceof Error ? error.message : <unknown error>\<close>\<close>

definition errorMessageOf :: "thrown \<Rightarrow> jsstring" where
  "errorMessageOf e = (case e of ErrorObj m \<Rightarrow> m | OtherValue \<Rightarrow> unknownError)"

text \<open>\<^verbatim>\<open>{ message: errorMessage, error: errorMsg }\<close>\<close>

definition errorPayload :: "jsstring \<Rightarrow> thrown \<Rightarrow> payload" where
  "errorPayload message e =
     PObject [(''message'', PString message), (''error'', PString (errorMessageOf e))]"

subsection \<open>The work of the stages\<close>

text \<open>
  The work of a stage is code outside the orchestrator (the agents, the search, the streaming
  of the answer). A call of it returns a value or throws, after emitting some events of its
  own: that outcome is an argument of the model. Work that never returns is not modelled.
\<close>

type_synonym 'a outcome = "emitted list \<times> (thrown + 'a)"

record Agents =
  plan :: "RouterPlan outcome"
  performWebSearch :: "RouterPlan \<Rightarrow> Source list outcome"
  extractFacts :: "Source list \<Rightarrow> Fact list outcome"
  analyze :: "Fact list \<Rightarrow> jsstring outcome"
  performOptimizedWriting :: "jsstring \<Rightarrow> Fact list \<Rightarrow> unit outcome"
  writerWrite :: "jsstring \<Rightarrow> Fact list \<Rightarrow> jsstring outcome"
  factCheck :: "jsstring \<Rightarrow> Source list \<Rightarrow> FactCheckReport outcome"
  critique :: "jsstring \<Rightarrow> jsstring outcome"
  credibilityWork :: "Fact list \<Rightarrow> Source list \<Rightarrow> jsstring \<Rightarrow> unit outcome"
  usage :: TokenUsage
  questionTokens :: int
  totalTime :: int
  credibilityStats :: payload

text \<open>
  Calling the work of a stage: its events are emitted, and the call and a throw are noted.
\<close>

definition invoke :: "stage \<Rightarrow> 'a outcome \<Rightarrow> PipelineRun \<Rightarrow> (thrown + 'a) \<times> PipelineRun" where
  "invoke stg operation run =
     (snd operation,
      run\<lparr>events := events run @ fst operation,
          invoked := invoked run @ [stg],
          failed := failed run @ (case snd operation of Inl e \<Rightarrow> [(stg, e)] | Inr v \<Rightarrow> [])\<rparr>)"

subsection \<open>\<^verbatim>\<open>UnifiedResearchPipeline\<close>\<close>

text \<open>
  \<^verbatim>\<open>private async safeExecute<T>(operation, errorMessage, emit): Promise<T | null>\<close>
  \<^verbatim>\<open>try { return await operation(); }\<close>
  \<^verbatim>\<open>catch (error) { ...; await emit('error', { message: errorMessage, error: errorMsg }); return null; }\<close>
  The stage is passed along for the two lists of the run only.
\<close>

definition safeExecute ::
  "stage \<Rightarrow> 'a outcome \<Rightarrow> jsstring \<Rightarrow> PipelineRun \<Rightarrow> 'a option \<times> PipelineRun" where
  "safeExecute stg operation errorMessage run =
     (case invoke stg operation run of
        (Inr v, run') \<Rightarrow> (Some v, run')
      | (Inl e, run') \<Rightarrow> (None, emit ''error'' (errorPayload errorMessage e) run'))"

text \<open>
  Stage 2: \<^verbatim>\<open>let sources = []; if (plan.useWeb) { sources = await this.safeExecute(...) || [];\<close>
  \<^verbatim>\<open>if (sources.length > 0) await emit('sources', sources); }\<close>
\<close>

definition unifiedSearch :: "Agents \<Rightarrow> RouterPlan \<Rightarrow> PipelineRun \<Rightarrow> Source list \<times> PipelineRun" where
  "unifiedSearch ag p run =
     (if useWeb p then
        let (r, run1) = safeExecute Search (performWebSearch ag p) msgWebSearchFailed run;
            sources = (case r of None \<Rightarrow> [] | Some s \<Rightarrow> s)
        in (sources, if length sources > 0 then emit ''sources'' (PSources sources) run1 else run1)
      else ([], run))"

text \<open>Stage 3: \<^verbatim>\<open>const facts = await this.safeExecute(...) || [];\<close>\<close>

definition unifiedResearch :: "Agents \<Rightarrow> Source list \<Rightarrow> PipelineRun \<Rightarrow> Fact list \<times> PipelineRun" where
  "unifiedResearch ag sources run =
     (let (r, run1) = safeExecute Research (extractFacts ag sources) msgExtractFailed run;
          facts = (case r of None \<Rightarrow> [] | Some f \<Rightarrow> f)
      in (facts, if length facts > 0 then emit ''facts'' (PFacts facts) run1 else run1))"

text \<open>
  Stage 4: \<^verbatim>\<open>const analysis = await this.safeExecute(...) || <default text>;\<close>
  The empty string is falsy as well.
\<close>

definition unifiedAnalysis :: "Agents \<Rightarrow> Fact list \<Rightarrow> PipelineRun \<Rightarrow> jsstring \<times> PipelineRun" where
  "unifiedAnalysis ag facts run =
     (let (r, run1) = safeExecute Analysis (analyze ag facts) msgAnalysisFailed run
      in ((case r of None \<Rightarrow> defaultAnalysis | Some a \<Rightarrow> if a = [] then defaultAnalysis else a),
          run1))"

text \<open>Stage 5: the result of \<^verbatim>\<open>safeExecute\<close> is dropped.\<close>

definition unifiedWriting :: "Agents \<Rightarrow> jsstring \<Rightarrow> Fact list \<Rightarrow> PipelineRun \<Rightarrow> PipelineRun" where
  "unifiedWriting ag analysis facts run =
     snd (safeExecute Writing (performOptimizedWriting ag analysis facts) msgWritingFailed run)"

text \<open>
  Stage 6, only when \<^verbatim>\<open>settings.speedMode !== 'fast'\<close>. The operation is the closure
  \<^verbatim>\<open>async () => { const currentResponse = await this.getCurrentResponse(emit);\<close>
  \<^verbatim>\<open>const factReport = await this.factCheckerAgent.factCheck(currentResponse, sources, settings.lang);\<close>
  \<^verbatim>\<open>await emit('factcheck', factReport); }\<close>
\<close>

definition factCheckOperation :: "Agents \<Rightarrow> Source list \<Rightarrow> unit outcome" where
  "factCheckOperation ag sources =
     (case factCheck ag currentResponsePlaceholder sources of
        (evs, Inl e) \<Rightarrow> (evs, Inl e)
      | (evs, Inr factReport) \<Rightarrow> (evs @ [(''factcheck'', PReport factReport)], Inr ()))"

definition unifiedFactCheck :: "Agents \<Rightarrow> Settings \<Rightarrow> Source list \<Rightarrow> PipelineRun \<Rightarrow> PipelineRun" where
  "unifiedFactCheck ag settings sources run =
     (if speedMode settings \<noteq> fast
      then snd (safeExecute FactCheck (factCheckOperation ag sources) msgFactCheckFailed run)
      else run)"

text \<open>
  Stage 7, only when \<^verbatim>\<open>settings.speedMode === 'thorough'\<close>, with the closure that emits
  \<^verbatim>\<open>emit('critique', { feedback: critique })\<close>.
\<close>

definition critiqueOperation :: "Agents \<Rightarrow> unit outcome" where
  "critiqueOperation ag =
     (case critique ag currentResponsePlaceholder of
        (evs, Inl e) \<Rightarrow> (evs, Inl e)
      | (evs, Inr c) \<Rightarrow> (evs @ [(''critique'', PObject [(''feedback'', PString c)])], Inr ()))"

definition unifiedCritique :: "Agents \<Rightarrow> Settings \<Rightarrow> PipelineRun \<Rightarrow> PipelineRun" where
  "unifiedCritique ag settings run =
     (if speedMode settings = thorough
      then snd (safeExecute Critique (critiqueOperation ag) msgCritiqueFailed run)
      else run)"

text \<open>Steps 8 and 9: \<^verbatim>\<open>await emit('tokens', tokenUsage); await emit('done', {});\<close>\<close>

definition unifiedFinish :: "Agents \<Rightarrow> PipelineRun \<Rightarrow> PipelineRun" where
  "unifiedFinish ag run = emit ''done'' (PObject []) (emit ''tokens'' (PUsage (usage ag)) run)"

text \<open>
  \<^verbatim>\<open>UnifiedResearchPipeline.runPipeline\<close>. After stage 1 comes \<^verbatim>\<open>if (!plan) return;\<close>.
  Every call that can throw is inside \<^verbatim>\<open>safeExecute\<close> and the event sink does not throw,
  so the outer \<^verbatim>\<open>catch\<close> is never entered.
\<close>

definition unifiedRunPipeline :: "Agents \<Rightarrow> Settings \<Rightarrow> PipelineRun" where
  "unifiedRunPipeline ag settings =
     (let (plan', run1) = safeExecute Router (plan ag) msgRouterFailed emptyRun in
      case plan' of
        None \<Rightarrow> run1
      | Some p \<Rightarrow>
          let run2 = emit ''router'' (PPlan p) run1;
              (sources, run3) = unifiedSearch ag p run2;
              (facts, run4) = unifiedResearch ag sources run3;
              (analysis, run5) = unifiedAnalysis ag facts run4;
              run6 = unifiedWriting ag analysis facts run5;
              run7 = unifiedFactCheck ag settings sources run6;
              run8 = unifiedCritique ag settings run7
          in unifiedFinish ag run8)"

subsection \<open>\<^verbatim>\<open>ResearchPipeline\<close>\<close>

text \<open>
  This pipeline uses \<^verbatim>\<open>try\<close> and \<^verbatim>\<open>catch\<close> directly. A piece of it is an action on the
  run that returns a value or throws; \<open>bindE\<close> is sequencing (a throw skips the rest) and
  \<open>tryCatch\<close> is \<^verbatim>\<open>try { ... } catch (error) { ... }\<close>.
\<close>

type_synonym 'a action = "PipelineRun \<Rightarrow> (thrown + 'a) \<times> PipelineRun"

definition returnE :: "'a \<Rightarrow> 'a action" where
  "returnE v run = (Inr v, run)"

definition bindE :: "'a action \<Rightarrow> ('a \<Rightarrow> 'b action) \<Rightarrow> 'b action" where
  "bindE m f run = (case m run of (Inl e, run') \<Rightarrow> (Inl e, run') | (Inr v, run') \<Rightarrow> f v run')"

definition tryCatch :: "'a action \<Rightarrow> (thrown \<Rightarrow> 'a action) \<Rightarrow> 'a action" where
  "tryCatch m handler run =
     (case m run of (Inl e, run') \<Rightarrow> handler e run' | (Inr v, run') \<Rightarrow> (Inr v, run'))"

definition emitE :: "string \<Rightarrow> payload \<Rightarrow> unit action" where
  "emitE name p run = (Inr (), emit name p run)"

text \<open>\<^verbatim>\<open>{ stage: ..., message: ... }\<close>\<close>

definition statusPayload :: "string \<Rightarrow> jsstring \<Rightarrow> payload" where
  "statusPayload stg message = PObject [(''stage'', PString (ascii stg)), (''message'', PString message)]"

text \<open>Stage 2, with its own \<^verbatim>\<open>try\<close> and \<^verbatim>\<open>catch\<close>, entered when \<^verbatim>\<open>plan.useWeb\<close>.\<close>

definition researchSearch :: "Agents \<Rightarrow> RouterPlan \<Rightarrow> Source list action" where
  "researchSearch ag p =
     (if useWeb p then
        tryCatch
          (bindE (emitE ''status'' (statusPayload ''search'' statusSearch)) (\<lambda>_.
           bindE (invoke Search (performWebSearch ag p)) (\<lambda>sources.
           bindE (emitE ''sources'' (PSources sources)) (\<lambda>_.
           returnE sources))))
          (\<lambda>error.
           bindE (emitE ''error'' (errorPayload msgSearchFailed error)) (\<lambda>_.
           returnE []))
      else returnE [])"

text \<open>
  Stage 3, with its own \<^verbatim>\<open>try\<close> and \<^verbatim>\<open>catch\<close>; the handler emits the error and then
  \<^verbatim>\<open>emit('facts', [])\<close>.
\<close>

definition researchFacts :: "Agents \<Rightarrow> Source list \<Rightarrow> Fact list action" where
  "researchFacts ag sources =
     tryCatch
       (bindE (emitE ''status'' (statusPayload ''research'' statusResearch)) (\<lambda>_.
        bindE (invoke Research (extractFacts ag sources)) (\<lambda>facts.
        bindE (emitE ''facts'' (PFacts facts)) (\<lambda>_.
        returnE facts))))
       (\<lambda>error.
        bindE (emitE ''error'' (errorPayload msgExtractFailed error)) (\<lambda>_.
        bindE (emitE ''facts'' (PFacts [])) (\<lambda>_.
        returnE [])))"

text \<open>
  \<^verbatim>\<open>performCredibilityAssessment\<close>: the body of its \<^verbatim>\<open>try\<close> (claim extraction, cross
  validation, uncertainty and score, each followed by an event) is the work
  \<open>credibilityWork\<close>; its \<^verbatim>\<open>catch\<close> emits an error event.
\<close>

definition performCredibilityAssessment ::
  "Agents \<Rightarrow> Fact list \<Rightarrow> Source list \<Rightarrow> jsstring \<Rightarrow> unit action" where
  "performCredibilityAssessment ag facts sources response =
     tryCatch
       (invoke Credibility (credibilityWork ag facts sources response))
       (\<lambda>error. emitE ''error'' (errorPayload msgCredibilityFailed error))"

text \<open>\<^verbatim>\<open>estimateSystemPromptTokens(settings)\<close>\<close>

definition estimateSystemPromptTokens :: "Settings \<Rightarrow> int" where
  "estimateSystemPromptTokens settings =
     (let baseTokens = 80;
          langTokens = (if lang settings = lang_auto then 15 else 25);
          speedTokens = (case speedMode settings of fast \<Rightarrow> 40 | balanced \<Rightarrow> 70 | thorough \<Rightarrow> 100);
          webTokens = (if settingsUseWeb settings then 60 else 20);
          configTokens = 40
      in baseTokens + langTokens + speedTokens + webTokens + configTokens)"

text \<open>
  The payload of the \<^verbatim>\<open>tokens\<close> event:
  \<^verbatim>\<open>{ ...tokenUsage, questionTokens, systemTokens: systemPromptTokens, actualPromptTokens }\<close>.
\<close>

definition tokensPayload :: "Agents \<Rightarrow> Settings \<Rightarrow> payload" where
  "tokensPayload ag settings =
     (let systemPromptTokens = estimateSystemPromptTokens settings;
          actualPromptTokens = questionTokens ag + systemPromptTokens
      in PObject [(''prompt'', PNumber (prompt (usage ag))),
                  (''completion'', PNumber (completion (usage ag))),
                  (''total'', PNumber (total (usage ag))),
                  (''questionTokens'', PNumber (questionTokens ag)),
                  (''systemTokens'', PNumber systemPromptTokens),
                  (''actualPromptTokens'', PNumber actualPromptTokens)])"

definition performancePayload :: "Agents \<Rightarrow> payload" where
  "performancePayload ag =
     PObject [(''totalTime'', PNumber (totalTime ag)), (''tokenUsage'', PUsage (usage ag)),
              (''credibilityStats'', credibilityStats ag)]"

text \<open>
  The body of the outer \<^verbatim>\<open>try\<close> of \<^verbatim>\<open>ResearchPipeline.runPipeline\<close>, stage by stage,
  in two parts: what follows the router's plan, and the router stage before it. The router,
  analysis, writing, fact-check and critique stages have no handler of their own.
\<close>

definition researchAfterPlan :: "Agents \<Rightarrow> Settings \<Rightarrow> RouterPlan \<Rightarrow> unit action" where
  "researchAfterPlan ag settings p =
     bindE (emitE ''router'' (PPlan p)) (\<lambda>_.
     bindE (researchSearch ag p) (\<lambda>sources.
     bindE (researchFacts ag sources) (\<lambda>facts.
     bindE (emitE ''status'' (statusPayload ''analysis'' statusAnalysis)) (\<lambda>_.
     bindE (invoke Analysis (analyze ag facts)) (\<lambda>analysis.
     bindE (emitE ''analysis'' (PString analysis)) (\<lambda>_.
     bindE (emitE ''status'' (statusPayload ''writing'' statusWriting)) (\<lambda>_.
     bindE (invoke Writing (writerWrite ag analysis facts)) (\<lambda>response.
     bindE (emitE ''response'' (PString response)) (\<lambda>_.
     bindE (emitE ''status'' (statusPayload ''factcheck'' statusFactcheck)) (\<lambda>_.
     bindE (invoke FactCheck (factCheck ag response sources)) (\<lambda>factCheckReport.
     bindE (emitE ''factcheck'' (PReport factCheckReport)) (\<lambda>_.
     bindE (emitE ''status'' (statusPayload ''critique'' statusCritique)) (\<lambda>_.
     bindE (invoke Critique (critique ag response)) (\<lambda>critique'.
     bindE (emitE ''critique'' (PString critique')) (\<lambda>_.
     bindE (emitE ''status'' (statusPayload ''credibility'' statusCredibility)) (\<lambda>_.
     bindE (performCredibilityAssessment ag facts sources response) (\<lambda>_.
     bindE (emitE ''tokens'' (tokensPayload ag settings)) (\<lambda>_.
     bindE (emitE ''status'' (statusPayload ''complete'' statusComplete)) (\<lambda>_.
     emitE ''performance'' (performancePayload ag))))))))))))))))))))"

definition researchBody :: "Agents \<Rightarrow> Settings \<Rightarrow> unit action" where
  "researchBody ag settings =
     bindE (emitE ''status'' (statusPayload ''router'' statusRouter)) (\<lambda>_.
     bindE (invoke Router (plan ag)) (\<lambda>p.
     researchAfterPlan ag settings p))"

text \<open>
  \<^verbatim>\<open>ResearchPipeline.runPipeline\<close>, from its \<^verbatim>\<open>try\<close> on: the outer \<^verbatim>\<open>catch\<close> emits the
  error event of the pipeline.
\<close>

definition researchRunPipeline :: "Agents \<Rightarrow> Settings \<Rightarrow> PipelineRun" where
  "researchRunPipeline ag settings =
     snd (tryCatch (researchBody ag settings)
            (\<lambda>error. emitE ''error'' (errorPayload msgPipelineFailed error))
            emptyRun)"

subsection \<open>Notions for the statements about the pipelines\<close>

text \<open>The message that each stage of the unified pipeline passes to \<^verbatim>\<open>safeExecute\<close>.\<close>

fun unifiedMessage :: "stage \<Rightarrow> jsstring" where
  "unifiedMessage Router = msgRouterFailed"
| "unifiedMessage Search = msgWebSearchFailed"
| "unifiedMessage Research = msgExtractFailed"
| "unifiedMessage Analysis = msgAnalysisFailed"
| "unifiedMessage Writing = msgWritingFailed"
| "unifiedMessage FactCheck = msgFactCheckFailed"
| "unifiedMessage Critique = msgCritiqueFailed"
| "unifiedMessage Credibility = []"

text \<open>The stages of the unified pipeline that a plan and the settings enable, in order.\<close>

definition unifiedStages :: "RouterPlan \<Rightarrow> Settings \<Rightarrow> stage list" where
  "unifiedStages p settings =
     [Router] @ (if useWeb p then [Search] else []) @ [Research, Analysis, Writing]
     @ (if speedMode settings \<noteq> fast then [FactCheck] else [])
     @ (if speedMode settings = thorough then [Critique] else [])"

text \<open>The stages of \<^verbatim>\<open>ResearchPipeline\<close> that a plan enables, in order.\<close>

definition researchStages :: "RouterPlan \<Rightarrow> stage list" where
  "researchStages p =
     [Router] @ (if useWeb p then [Search] else [])
     @ [Research, Analysis, Writing, FactCheck, Critique, Credibility]"

text \<open>
  The stages of \<^verbatim>\<open>ResearchPipeline\<close> with a handler of their own, and the message of the
  handler that catches a failure of each stage.
\<close>

fun handledLocally :: "stage \<Rightarrow> bool" where
  "handledLocally Search = True"
| "handledLocally Research = True"
| "handledLocally Credibility = True"
| "handledLocally _ = False"

fun researchMessage :: "stage \<Rightarrow> jsstring" where
  "researchMessage Search = msgSearchFailed"
| "researchMessage Research = msgExtractFailed"
| "researchMessage Credibility = msgCredibilityFailed"
| "researchMessage _ = msgPipelineFailed"

text \<open>Every failure noted in a list has its error event, with the stage's message, in \<open>evs\<close>.\<close>

definition diagnosed :: "(stage \<Rightarrow> jsstring) \<Rightarrow> (stage \<times> thrown) list \<Rightarrow> emitted list \<Rightarrow> bool" where
  "diagnosed message fl evs =
     list_all (\<lambda>(stg, e). (''error'', errorPayload (message stg) e) \<in> set evs) fl"

text \<open>The run ended with the two closing events of the unified pipeline.\<close>

definition unifiedCompleted :: "Agents \<Rightarrow> PipelineRun \<Rightarrow> bool" where
  "unifiedCompleted ag run =
     (\<exists>pre. events run = pre @ [(''tokens'', PUsage (usage ag)), (''done'', PObject [])])"

text \<open>The run ended with the two closing events of \<^verbatim>\<open>ResearchPipeline\<close>.\<close>

definition researchCompleted :: "Agents \<Rightarrow> PipelineRun \<Rightarrow> bool" where
  "researchCompleted ag run =
     (\<exists>pre. events run = pre @ [(''status'', statusPayload ''complete'' statusComplete),
                                (''performance'', performancePayload ag)])"

text \<open>
  How a later run extends an earlier one: by events, by the stages \<open>stgs\<close> in that order, and
  by failures, each with its error event among the new events.
\<close>

definition extendsBy ::
  "(stage \<Rightarrow> jsstring) \<Rightarrow> stage list \<Rightarrow> PipelineRun \<Rightarrow> PipelineRun \<Rightarrow> bool" where
  "extendsBy message stgs run run' \<longleftrightarrow>
     (\<exists>evs fl. events run' = events run @ evs \<and> invoked run' = invoked run @ stgs \<and>
        failed run' = failed run @ fl \<and> diagnosed message fl evs)"

text \<open>
  The same for \<^verbatim>\<open>ResearchPipeline\<close>, for a piece that completes (its new events end with
  \<open>ending\<close>, and every new failure was handled by the stage's own handler) and for a piece that
  throws \<open>e\<close> (the stage \<open>stg\<close> that threw has no handler and is the last one called).
\<close>

definition okStep :: "stage list \<Rightarrow> emitted list \<Rightarrow> PipelineRun \<Rightarrow> PipelineRun \<Rightarrow> bool" where
  "okStep stgs ending run run' \<longleftrightarrow>
     (\<exists>evs fl. events run' = events run @ evs @ ending \<and> invoked run' = invoked run @ stgs \<and>
        failed run' = failed run @ fl \<and> diagnosed researchMessage fl (evs @ ending) \<and>
        list_all (\<lambda>(stg, e). handledLocally stg) fl)"

definition abortStep :: "thrown \<Rightarrow> PipelineRun \<Rightarrow> PipelineRun \<Rightarrow> bool" where
  "abortStep e run run' \<longleftrightarrow>
     (\<exists>evs fl pre stg. events run' = events run @ evs \<and> invoked run' = invoked run @ pre @ [stg] \<and>
        failed run' = failed run @ fl @ [(stg, e)] \<and> \<not> handledLocally stg \<and>
        diagnosed researchMessage fl evs \<and> list_all (\<lambda>(stg, e). handledLocally stg) fl)"

definition actionSpec :: "stage list \<Rightarrow> emitted list \<Rightarrow> 'a action \<Rightarrow> bool" where
  "actionSpec stgs ending m \<longleftrightarrow>
     (\<forall>run. case m run of
              (Inr v, run') \<Rightarrow> okStep stgs ending run run'
            | (Inl e, run') \<Rightarrow> abortStep e run run')"

text \<open>
  Concrete runs: agents that all succeed, and variants in which one or two stages throw.
\<close>

definition examplePlan :: RouterPlan where
  "examplePlan = \<lparr>useWeb = True, topic = general,
                   steps = [ascii ''research'', ascii ''analyze'', ascii ''write''], maxIterations = 3\<rparr>"

definition exampleSettings :: Settings where
  "exampleSettings = \<lparr>speedMode = thorough, lang = lang_auto, settingsUseWeb = True,
                       timeLimitMs = None, minEnSources = None, maxPerDomain = None,
                       queryExpansion = None\<rparr>"

definition rateLimited :: thrown where
  "rateLimited = ErrorObj (ascii ''429 rate limit'')"

definition exampleAgents :: Agents where
  "exampleAgents =
     \<lparr>plan = ([], Inr examplePlan),
      performWebSearch = (\<lambda>p. ([], Inr [urlOnly (ascii ''https://a.jp/x'')])),
      extractFacts = (\<lambda>sources. ([], Inr [])),
      analyze = (\<lambda>facts. ([], Inr (ascii ''ok''))),
      performOptimizedWriting =
        (\<lambda>analysis facts. ([(''writer'', PObject [(''chunk'', PString (ascii ''answer''))])], Inr ())),
      writerWrite = (\<lambda>analysis facts. ([], Inr (ascii ''answer''))),
      factCheck = (\<lambda>text sources. ([], Inr \<lparr>claims = [], summary = None\<rparr>)),
      critique = (\<lambda>text. ([], Inr (ascii ''fine''))),
      credibilityWork = (\<lambda>facts sources response. ([], Inr ())),
      usage = \<lparr>prompt = 0, completion = 0, total = 0\<rparr>,
      questionTokens = 0, totalTime = 0, credibilityStats = POpaque 0\<rparr>"

definition routerFails :: Agents where
  "routerFails = exampleAgents\<lparr>plan := ([], Inl rateLimited)\<rparr>"

definition analysisFails :: Agents where
  "analysisFails = exampleAgents\<lparr>analyze := (\<lambda>facts. ([], Inl rateLimited))\<rparr>"

definition searchAndWritingFail :: Agents where
  "searchAndWritingFail =
     exampleAgents\<lparr>performWebSearch := (\<lambda>p. ([], Inl rateLimited)),
                   performOptimizedWriting := (\<lambda>analysis facts. ([], Inl OtherValue))\<rparr>"

definition extractionFails :: Agents where
  "extractionFails = exampleAgents\<lparr>extractFacts := (\<lambda>sources. ([], Inl rateLimited))\<rparr>"

section \<open>Properties of the cache\<close>

lemma ttl_ValidationCache_set: "ttl (ValidationCache_set fact' sources d now c) = ttl c"
  by (simp add: ValidationCache_set_def Let_def)

lemma lookup_after_set:
  "fact' \<noteq> [] \<Longrightarrow>
   map_of (cache (ValidationCache_set fact' sources d now c)) (generateKey fact' sources)
     = Some \<lparr>data = d, timestamp = now\<rparr>"
  by (simp add: ValidationCache_set_def Let_def update_conv')

text \<open>
  C10. With the empty string as claim, \<^verbatim>\<open>get\<close> misses whatever the sources and the
  contents of the cache are and leaves the cache as it was, and \<^verbatim>\<open>set\<close> returns the cache
  unchanged: nothing is inserted and nothing is evicted.
\<close>

theorem empty_claim_is_noop:
  "ValidationCache_get [] sources now c = (None, c) \<and> ValidationCache_set [] sources d now c = c"
  by (simp add: ValidationCache_get_def ValidationCache_set_def)


text \<open>
  C5, as amended. For every non-empty claim text, \<^verbatim>\<open>set\<close> at time \<open>now\<close> followed by
  \<^verbatim>\<open>get\<close> of the same claim and sources at time \<open>now'\<close> returns the stored payload when
  at most \<open>ttl\<close> milliseconds have elapsed, and a miss when strictly more have.
\<close>

theorem set_then_get_roundtrip:
  "fact' \<noteq> [] \<Longrightarrow>
   fst (ValidationCache_get fact' sources now' (ValidationCache_set fact' sources d now c))
     = (if now' - now > ttl c then None else Some d)"
  by (simp add: ValidationCache_get_def Let_def lookup_after_set ttl_ValidationCache_set)

theorem set_then_get_roundtrip_witness:
  "ascii ''a'' \<noteq> [] \<and>
   fst (ValidationCache_get (ascii ''a'') [urlOnly (ascii ''u'')] 2000
         (ValidationCache_set (ascii ''a'') [urlOnly (ascii ''u'')] (7::nat) 1000
           (ValidationCache_new 5 1000))) = Some 7 \<and>
   fst (ValidationCache_get (ascii ''a'') [urlOnly (ascii ''u'')] 2001
         (ValidationCache_set (ascii ''a'') [urlOnly (ascii ''u'')] (7::nat) 1000
           (ValidationCache_new 5 1000))) = None"
proof -
  have ne: "ascii ''a'' \<noteq> []" by (simp add: ascii_def)
  show ?thesis
    using ne
      set_then_get_roundtrip [OF ne, of "[urlOnly (ascii ''u'')]" 2000 7 1000 "ValidationCache_new 5 1000"]
      set_then_get_roundtrip [OF ne, of "[urlOnly (ascii ''u'')]" 2001 7 1000 "ValidationCache_new 5 1000"]
    by (simp add: ValidationCache_new_def)
qed

text \<open>
  The round trip as stated for every key fails at the empty claim text: no time has elapsed
  since the \<^verbatim>\<open>set\<close>, yet the \<^verbatim>\<open>get\<close> misses.
\<close>

theorem empty_claim_roundtrip_counterexample:
  "(0::int) - 0 \<le> ttl (ValidationCache_new 1000 3600000 :: nat ValidationCache) \<and>
   fst (ValidationCache_get [] [urlOnly (ascii ''u'')] 0
         (ValidationCache_set [] [urlOnly (ascii ''u'')] (7::nat) 0
           (ValidationCache_new 1000 3600000))) = None"
  by (simp add: ValidationCache_get_def ValidationCache_set_def ValidationCache_new_def)

subsection \<open>The cache key\<close>

lemma append_bar_eq:
  "bar \<notin> set a \<Longrightarrow> bar \<notin> set b \<Longrightarrow> a @ bar # r = b @ bar # s \<Longrightarrow> a = b \<and> r = s"
proof (induction a arbitrary: b)
  case Nil
  then show ?case by (cases b) auto
next
  case (Cons x a)
  then show ?case by (cases b) auto
qed

lemma join_Cons_Cons: "join [bar] (x # y # ys) = x @ bar # join [bar] (y # ys)"
  by simp

lemma bar_in_join_Cons_Cons: "bar \<in> set (join [bar] (x # y # ys))"
  by simp

lemma join_bar_free_inj:
  "\<forall>x\<in>set xs. x \<noteq> [] \<and> bar \<notin> set x \<Longrightarrow> \<forall>y\<in>set ys. y \<noteq> [] \<and> bar \<notin> set y \<Longrightarrow>
   join [bar] xs = join [bar] ys \<Longrightarrow> xs = ys"
proof (induction xs arbitrary: ys rule: induct_list012)
  case 1
  then show ?case by (cases ys rule: remdups_adj.cases) auto
next
  case (2 x)
  show ?case
  proof (cases ys rule: remdups_adj.cases)
    case 1
    with 2 show ?thesis by simp
  next
    case (2 y)
    with "2.prems" show ?thesis by simp
  next
    case (3 y y2 ys')
    with "2.prems" have "x = join [bar] (y # y2 # ys')" by simp
    with "2.prems"(1) bar_in_join_Cons_Cons[of y y2 ys'] show ?thesis by simp
  qed
next
  case (3 x x2 xs')
  show ?case
  proof (cases ys rule: remdups_adj.cases)
    case 1
    with "3.prems" show ?thesis by simp
  next
    case (2 y)
    with "3.prems" have "join [bar] (x # x2 # xs') = y" by simp
    with "3.prems"(2) 2 show ?thesis by auto
  next
    case c: (3 y y2 ys')
    from "3.prems" c have eq: "x @ bar # join [bar] (x2 # xs') = y @ bar # join [bar] (y2 # ys')"
      by simp
    from "3.prems" c have "bar \<notin> set x" "bar \<notin> set y" by simp_all
    with eq have xy: "x = y" and rest: "join [bar] (x2 # xs') = join [bar] (y2 # ys')"
      using append_bar_eq by blast+
    from "3.prems" c have "\<forall>x\<in>set (x2 # xs'). x \<noteq> [] \<and> bar \<notin> set x"
      "\<forall>y\<in>set (y2 # ys'). y \<noteq> [] \<and> bar \<notin> set y" by simp_all
    with "3.IH"(2) rest have "x2 # xs' = y2 # ys'" by blast
    with xy c show ?thesis by simp
  qed
qed

text \<open>
  C4, as amended. The key is a function of the claim text and of the sorted URL list. When
  neither claim text contains the separator \<^verbatim>\<open>'|'\<close> and every URL is non-empty and free
  of it, two keys are equal exactly when the claim texts are equal and the sorted URL lists
  are equal (so the URLs are the same, with the same multiplicities).
\<close>

theorem generateKey_injective_without_bar:
  assumes "bar \<notin> set f1" and "bar \<notin> set f2"
    and "\<forall>s\<in>set s1 \<union> set s2. url s \<noteq> [] \<and> bar \<notin> set (url s)"
  shows "generateKey f1 s1 = generateKey f2 s2 \<longleftrightarrow>
           f1 = f2 \<and> sort (map url s1) = sort (map url s2)"
proof
  assume eq: "generateKey f1 s1 = generateKey f2 s2"
  then have "f1 @ bar # join [bar] (sort (map url s1)) = f2 @ bar # join [bar] (sort (map url s2))"
    by (simp add: generateKey_def)
  with assms(1,2) have f: "f1 = f2"
    and j: "join [bar] (sort (map url s1)) = join [bar] (sort (map url s2))"
    using append_bar_eq by blast+
  from assms(3) have "\<forall>x\<in>set (sort (map url s1)). x \<noteq> [] \<and> bar \<notin> set x"
    "\<forall>y\<in>set (sort (map url s2)). y \<noteq> [] \<and> bar \<notin> set y" by auto
  with j have "sort (map url s1) = sort (map url s2)" using join_bar_free_inj by blast
  with f show "f1 = f2 \<and> sort (map url s1) = sort (map url s2)" by simp
next
  assume "f1 = f2 \<and> sort (map url s1) = sort (map url s2)"
  then show "generateKey f1 s1 = generateKey f2 s2" by (simp add: generateKey_def)
qed

theorem generateKey_injective_without_bar_witness:
  "bar \<notin> set (ascii ''a'') \<and>
   url (urlOnly (ascii ''u'')) \<noteq> [] \<and> bar \<notin> set (url (urlOnly (ascii ''u''))) \<and>
   url (urlOnly (ascii ''v'')) \<noteq> [] \<and> bar \<notin> set (url (urlOnly (ascii ''v''))) \<and>
   generateKey (ascii ''a'') [urlOnly (ascii ''v''), urlOnly (ascii ''u'')]
     = generateKey (ascii ''a'') [urlOnly (ascii ''u''), urlOnly (ascii ''v'')] \<and>
   generateKey (ascii ''a'') [urlOnly (ascii ''v'')]
     \<noteq> generateKey (ascii ''a'') [urlOnly (ascii ''u'')]"
proof -
  have a: "bar \<notin> set (ascii ''a'')"
    by (simp add: ascii_def bar_def)
  have u: "\<forall>s\<in>set [urlOnly (ascii ''v''), urlOnly (ascii ''u'')]
                \<union> set [urlOnly (ascii ''u''), urlOnly (ascii ''v'')].
             url s \<noteq> [] \<and> bar \<notin> set (url s)"
    by (simp add: ascii_def bar_def urlOnly_def)
  have v: "\<forall>s\<in>set [urlOnly (ascii ''v'')] \<union> set [urlOnly (ascii ''u'')].
             url s \<noteq> [] \<and> bar \<notin> set (url s)"
    by (simp add: ascii_def bar_def urlOnly_def)
  have s: "sort (map url [urlOnly (ascii ''v''), urlOnly (ascii ''u'')])
             = sort (map url [urlOnly (ascii ''u''), urlOnly (ascii ''v'')])"
    "sort (map url [urlOnly (ascii ''v'')]) \<noteq> sort (map url [urlOnly (ascii ''u'')])"
    by (simp_all add: ascii_def urlOnly_def)
  show ?thesis
    using a u s generateKey_injective_without_bar [OF a a u] generateKey_injective_without_bar [OF a a v]
    by simp
qed

text \<open>
  Injectivity as stated fails when a claim text contains the separator: the claim
  \<^verbatim>\<open>x|y\<close> with the source \<^verbatim>\<open>z\<close> and the claim \<^verbatim>\<open>x\<close> with the sources
  \<^verbatim>\<open>y\<close>, \<^verbatim>\<open>z\<close> share one key, and a verdict stored for the first pair is returned for
  the second.
\<close>

theorem generateKey_collision_counterexample:
  "ascii ''x|y'' \<noteq> ascii ''x'' \<and>
   generateKey (ascii ''x|y'') [urlOnly (ascii ''z'')]
     = generateKey (ascii ''x'') [urlOnly (ascii ''y''), urlOnly (ascii ''z'')] \<and>
   fst (ValidationCache_get (ascii ''x'') [urlOnly (ascii ''y''), urlOnly (ascii ''z'')] 0
         (ValidationCache_set (ascii ''x|y'') [urlOnly (ascii ''z'')] (7::nat) 0
           (ValidationCache_new 1000 3600000))) = Some 7"
  by (simp add: ValidationCache_get_def ValidationCache_set_def ValidationCache_new_def
      generateKey_def ascii_def urlOnly_def bar_def)


section \<open>Properties of the diversifier\<close>

lemma capInv_init: "capInv hostname M diversifyInit"
  by (simp add: capInv_def diversifyInit_def domainCount_def usedOf_def)

lemma capInv_admit:
  assumes "capInv hostname M st"
    and "\<not> usedOf (byDomain st) (domainOf hostname (url (snd s))) \<ge> M"
  shows "capInv hostname M
           (st\<lparr>picked := picked st @ [s],
               byDomain := (byDomain st)(domainOf hostname (url (snd s)) \<mapsto>
                              usedOf (byDomain st) (domainOf hostname (url (snd s))) + 1),
               enCount := e\<rparr>)"
  using assms by (auto simp: capInv_def domainCount_def usedOf_def)

lemma capInv_greedyPass:
  "capInv hostname M st \<Longrightarrow> capInv hostname M (greedyPass hostname M k xs st)"
proof (induction xs arbitrary: st)
  case Nil
  then show ?case by simp
next
  case (Cons s xs)
  show ?case
  proof (cases "usedOf (byDomain st) (domainOf hostname (url (snd s))) \<ge> M")
    case True
    with Cons show ?thesis by simp
  next
    case False
    from capInv_admit[OF Cons.prems False] Cons.IH False show ?thesis
      by (simp add: Let_def)
  qed
qed

lemma capInv_backfillPass:
  "capInv hostname M st \<Longrightarrow> capInv hostname M (backfillPass hostname M N k xs st)"
proof (induction xs arbitrary: st)
  case Nil
  then show ?case by simp
next
  case (Cons s xs)
  show ?case
  proof (cases "usedOf (byDomain st) (domainOf hostname (url (snd s))) \<ge> M")
    case True
    with Cons show ?thesis by simp
  next
    case False
    from capInv_admit[OF Cons.prems False] Cons.IH Cons.prems False show ?thesis
      by (simp add: Let_def)
  qed
qed

lemma domainCount_slice0: "domainCount hostname d (slice0 xs k) \<le> domainCount hostname d xs"
proof -
  have "length (filter P (take n xs)) \<le> length (filter P xs)" for P n
    by (metis append_take_drop_id filter_append length_append le_add1)
  then show ?thesis by (simp add: domainCount_def slice0_def)
qed

text \<open>
  C6. Whatever the pool, the requested size \<open>k\<close> and the cap are, no domain has more than
  \<^verbatim>\<open>MAX_PER_DOMAIN\<close> sources among the picked sources after the greedy pass, after the
  backfill pass and in the returned list. (A cap below zero admits nothing: the bound is then 0.)
\<close>

theorem diversify_per_domain_cap:
  "domainCount hostname d (picked (afterGreedy hostname M sources k)) \<le> max 0 M \<and>
   domainCount hostname d (picked (afterBackfill hostname M N sources k)) \<le> max 0 M \<and>
   domainCount hostname d (diversifySources hostname M N sources k) \<le> max 0 M"
proof -
  have g: "capInv hostname M (afterGreedy hostname M sources k)"
    by (simp add: afterGreedy_def capInv_greedyPass capInv_init)
  then have b: "capInv hostname M (afterBackfill hostname M N sources k)"
    by (simp add: afterBackfill_def Let_def capInv_backfillPass)
  from b have "domainCount hostname d (picked (afterBackfill hostname M N sources k)) \<le> max 0 M"
    by (simp add: capInv_def)
  moreover from this domainCount_slice0[of hostname d "picked (afterBackfill hostname M N sources k)" k]
  have "domainCount hostname d (diversifySources hostname M N sources k) \<le> max 0 M"
    by (simp add: diversifySources_def)
  moreover from g have "domainCount hostname d (picked (afterGreedy hostname M sources k)) \<le> max 0 M"
    by (simp add: capInv_def)
  ultimately show ?thesis by simp
qed


theorem diversify_per_domain_cap_witness:
  "domainCount exampleHost (ascii ''a.jp'') [cjkSource, enSourceA2, enSourceA3] = 3 \<and>
   domainCount exampleHost (ascii ''a.jp'')
     (diversifySources exampleHost 2 3 [cjkSource, enSourceA2, enSourceA3] 10) \<le> 2"
proof -
  have "domainCount exampleHost (ascii ''a.jp'') [cjkSource, enSourceA2, enSourceA3] = 3"
    by (simp add: domainCount_def domainOf_def exampleHost_def cjkSource_def enSourceA2_def
        enSourceA3_def mkObj_def ascii_def)
  then show ?thesis
    using diversify_per_domain_cap [of exampleHost "ascii ''a.jp''" 2
        "[cjkSource, enSourceA2, enSourceA3]" 10 3]
    by simp
qed

subsection \<open>The backfill pass and the final \<^verbatim>\<open>slice\<close>\<close>

lemma picked_greedyPass_prefix:
  "\<exists>extra. picked (greedyPass hostname M k xs st) = picked st @ extra"
proof (induction xs arbitrary: st)
  case Nil
  then show ?case by simp
next
  case (Cons s xs)
  show ?case
    using Cons.IH[of st]
      Cons.IH[of "st\<lparr>picked := picked st @ [s],
                byDomain := (byDomain st)(domainOf hostname (url (snd s)) \<mapsto>
                              usedOf (byDomain st) (domainOf hostname (url (snd s))) + 1),
                enCount := (if isEnglishLike (title (snd s)) (snippet (snd s)) (Some (url (snd s)))
                                    then enCount st + 1 else enCount st)\<rparr>"]
    by (auto simp: Let_def)
qed

lemma picked_backfillPass_prefix:
  "\<exists>extra. picked (backfillPass hostname M N k xs st) = picked st @ extra"
proof (induction xs arbitrary: st)
  case Nil
  then show ?case by simp
next
  case (Cons s xs)
  show ?case
    using Cons.IH[of st]
      Cons.IH[of "st\<lparr>picked := picked st @ [s],
                byDomain := (byDomain st)(domainOf hostname (url (snd s)) \<mapsto>
                              usedOf (byDomain st) (domainOf hostname (url (snd s))) + 1),
                enCount := enCount st + 1\<rparr>"]
    by (auto simp: Let_def)
qed

lemma usedOf_greedyPass_mono:
  "usedOf (byDomain st) d \<le> usedOf (byDomain (greedyPass hostname M k xs st)) d"
proof (induction xs arbitrary: st)
  case Nil
  then show ?case by simp
next
  case (Cons s xs)
  let ?st' = "st\<lparr>picked := picked st @ [s],
                byDomain := (byDomain st)(domainOf hostname (url (snd s)) \<mapsto>
                              usedOf (byDomain st) (domainOf hostname (url (snd s))) + 1),
                enCount := (if isEnglishLike (title (snd s)) (snippet (snd s)) (Some (url (snd s)))
                                    then enCount st + 1 else enCount st)\<rparr>"
  have step: "usedOf (byDomain st) d \<le> usedOf (byDomain ?st') d"
    by (simp add: usedOf_def)
  show ?case
    using Cons.IH[of st] Cons.IH[of ?st'] step
    by (auto simp: Let_def simp del: fun_upd_apply)
qed

lemma includesObj_append: "includesObj xs s \<Longrightarrow> includesObj (xs @ ys) s"
  by (auto simp: includesObj_def)

lemma greedyPass_full_or_settled:
  "int (length (picked (greedyPass hostname M k xs st))) \<ge> k \<or>
   list_all (settled hostname M (greedyPass hostname M k xs st)) xs"
proof (induction xs arbitrary: st)
  case Nil
  then show ?case by simp
next
  case (Cons s xs)
  let ?d = "domainOf hostname (url (snd s))"
  let ?st' = "st\<lparr>picked := picked st @ [s],
                byDomain := (byDomain st)(?d \<mapsto> usedOf (byDomain st) ?d + 1),
                enCount := (if isEnglishLike (title (snd s)) (snippet (snd s)) (Some (url (snd s)))
                                    then enCount st + 1 else enCount st)\<rparr>"
  show ?case
  proof (cases "usedOf (byDomain st) ?d \<ge> M")
    case True
    then have r: "greedyPass hostname M k (s # xs) st = greedyPass hostname M k xs st" by simp
    from True usedOf_greedyPass_mono[of st ?d hostname M k xs]
    have "settled hostname M (greedyPass hostname M k xs st) s"
      by (simp add: settled_def)
    with Cons.IH[of st] show ?thesis unfolding r by auto
  next
    case False
    show ?thesis
    proof (cases "int (length (picked ?st')) \<ge> k")
      case True
      with False have "greedyPass hostname M k (s # xs) st = ?st'" by (simp add: Let_def)
      with True show ?thesis by simp
    next
      case nfull: False
      with False have r: "greedyPass hostname M k (s # xs) st = greedyPass hostname M k xs ?st'"
        by (simp add: Let_def)
      obtain extra where "picked (greedyPass hostname M k xs ?st') = picked ?st' @ extra"
        using picked_greedyPass_prefix by blast
      then have "includesObj (picked (greedyPass hostname M k xs ?st')) s"
        by (simp add: includesObj_def)
      then have "settled hostname M (greedyPass hostname M k xs ?st') s"
        by (simp add: settled_def)
      with Cons.IH[of ?st'] show ?thesis unfolding r by auto
    qed
  qed
qed

lemma backfillPass_settled_id:
  "list_all (settled hostname M st) xs \<Longrightarrow> backfillPass hostname M N k xs st = st"
  by (induction xs) (auto simp: settled_def)

lemma slice0_append_full:
  "0 \<le> k \<Longrightarrow> k \<le> int (length xs) \<Longrightarrow> slice0 (xs @ ys) k = slice0 xs k"
  by (simp add: slice0_def)

lemma backfill_never_reaches_output:
  "0 \<le> k \<Longrightarrow>
   diversifySources hostname M N sources k = slice0 (picked (afterGreedy hostname M sources k)) k"
proof -
  assume k: "0 \<le> k"
  let ?g = "afterGreedy hostname M sources k"
  show ?thesis
  proof (cases "enCount ?g < N")
    case False
    then show ?thesis by (simp add: diversifySources_def afterBackfill_def)
  next
    case True
    then have ab: "afterBackfill hostname M N sources k = backfillPass hostname M N k sources ?g"
      by (simp add: afterBackfill_def)
    from greedyPass_full_or_settled[of k hostname M sources diversifyInit]
    consider "int (length (picked ?g)) \<ge> k" | "list_all (settled hostname M ?g) sources"
      by (auto simp: afterGreedy_def)
    then show ?thesis
    proof cases
      case 1
      obtain extra where "picked (backfillPass hostname M N k sources ?g) = picked ?g @ extra"
        using picked_backfillPass_prefix by blast
      with 1 k show ?thesis
        by (simp add: diversifySources_def ab slice0_append_full)
    next
      case 2
      then show ?thesis
        by (simp add: diversifySources_def ab backfillPass_settled_id)
    qed
  qed
qed


lemma enSource_isEnglishLike:
  "isEnglishLike (title (snd enSource)) (snippet (snd enSource)) (Some (url (snd enSource)))"
  by (simp add: isEnglishLike_def enSource_def mkObj_def hasCJK_def isCJKUnit_def orEmpty_def ascii_def)

lemma cjkSource_not_isEnglishLike:
  "\<not> isEnglishLike (title (snd cjkSource)) (snippet (snd cjkSource)) (Some (url (snd cjkSource)))"
  by (simp add: isEnglishLike_def cjkSource_def mkObj_def hasCJK_def isCJKUnit_def orEmpty_def ascii_def)

lemma picked_afterBackfill_example:
  "picked (afterBackfill exampleHost 2 3 [cjkSource, enSource] 1) = [cjkSource, enSource]"
  by (simp add: afterBackfill_def afterGreedy_def diversifyInit_def Let_def usedOf_def
      includesObj_def domainOf_def exampleHost_def cjkSource_def enSource_def mkObj_def ascii_def
      isEnglishLike_def hasCJK_def isCJKUnit_def orEmpty_def)

text \<open>
  C7 at a failing input. The pool holds one Japanese source of \<^verbatim>\<open>a.jp\<close> and one English
  source of \<^verbatim>\<open>b.com\<close>, with \<^verbatim>\<open>k = 1\<close>, \<^verbatim>\<open>MAX_PER_DOMAIN = 2\<close> and
  \<^verbatim>\<open>MIN_EN_SOURCES = 3\<close>. The pool has one foreign source, fewer than three; no source of its
  domain is in the output, so the cap admits it; the backfill pass does pick it; and the final
  \<^verbatim>\<open>picked.slice(0, k)\<close> drops it again.
\<close>

theorem backfill_dropped_at_failing_input:
  "length (filter (\<lambda>s. isEnglishLike (title (snd s)) (snippet (snd s)) (Some (url (snd s))))
             [cjkSource, enSource]) = 1 \<and>
   picked (afterBackfill exampleHost 2 3 [cjkSource, enSource] 1) = [cjkSource, enSource] \<and>
   diversifySources exampleHost 2 3 [cjkSource, enSource] 1 = [cjkSource] \<and>
   domainCount exampleHost (domainOf exampleHost (url (snd enSource))) [cjkSource] = 0"
proof -
  have "diversifySources exampleHost 2 3 [cjkSource, enSource] 1 = [cjkSource]"
    by (simp add: diversifySources_def picked_afterBackfill_example slice0_def)
  moreover have "domainCount exampleHost (domainOf exampleHost (url (snd enSource))) [cjkSource] = 0"
    by (simp add: domainCount_def domainOf_def exampleHost_def cjkSource_def enSource_def
        mkObj_def ascii_def)
  ultimately show ?thesis
    by (simp add: picked_afterBackfill_example enSource_isEnglishLike cjkSource_not_isEnglishLike)
qed


section \<open>Properties of the stage budget\<close>








section \<open>Properties of the confidence\<close>











section \<open>Properties of the executor\<close>























section \<open>Properties of the pipelines\<close>

subsection \<open>The unified pipeline\<close>

lemma diagnosed_Nil: "diagnosed message [] evs"
  by (simp add: diagnosed_def)

lemma diagnosed_append:
  "diagnosed message (f1 @ f2) evs \<longleftrightarrow> diagnosed message f1 evs \<and> diagnosed message f2 evs"
  by (simp add: diagnosed_def)

lemma diagnosed_more_events:
  "diagnosed message fl evs \<Longrightarrow> diagnosed message fl (pre @ evs @ post)"
  by (auto simp: diagnosed_def list_all_iff)

lemma extendsBy_refl: "extendsBy message [] run run"
  by (simp add: extendsBy_def diagnosed_Nil)

lemma extendsBy_trans:
  assumes "extendsBy message s1 a b" and "extendsBy message s2 b c"
  shows "extendsBy message (s1 @ s2) a c"
proof -
  from assms(1) obtain e1 f1 where 1: "events b = events a @ e1" "invoked b = invoked a @ s1"
    "failed b = failed a @ f1" "diagnosed message f1 e1"
    by (auto simp: extendsBy_def)
  from assms(2) obtain e2 f2 where 2: "events c = events b @ e2" "invoked c = invoked b @ s2"
    "failed c = failed b @ f2" "diagnosed message f2 e2"
    by (auto simp: extendsBy_def)
  from diagnosed_more_events[OF 1(4), of "[]" e2] have d1: "diagnosed message f1 (e1 @ e2)" by simp
  from diagnosed_more_events[OF 2(4), of e1 "[]"] have d2: "diagnosed message f2 (e1 @ e2)" by simp
  have "events c = events a @ (e1 @ e2)" "invoked c = invoked a @ (s1 @ s2)"
    "failed c = failed a @ (f1 @ f2)" "diagnosed message (f1 @ f2) (e1 @ e2)"
    using 1 2 d1 d2 by (simp_all add: diagnosed_append)
  then show ?thesis unfolding extendsBy_def by blast
qed

lemma extendsBy_emit: "extendsBy message [] run (emit name p run)"
  unfolding extendsBy_def emit_def
  by (rule exI[of _ "[(name, p)]"], rule exI[of _ "[]"]) (simp add: diagnosed_Nil)

lemma extendsBy_safeExecute:
  "extendsBy message [stg] run (snd (safeExecute stg operation (message stg) run))"
proof (cases "snd operation")
  case (Inl e)
  then have "snd (safeExecute stg operation (message stg) run)
        = run\<lparr>events := events run @ (fst operation @ [(''error'', errorPayload (message stg) e)]),
               invoked := invoked run @ [stg], failed := failed run @ [(stg, e)]\<rparr>"
    by (simp add: safeExecute_def invoke_def emit_def)
  moreover have "diagnosed message [(stg, e)] (fst operation @ [(''error'', errorPayload (message stg) e)])"
    by (simp add: diagnosed_def)
  ultimately show ?thesis unfolding extendsBy_def
    by (intro exI[of _ "fst operation @ [(''error'', errorPayload (message stg) e)]"]
        exI[of _ "[(stg, e)]"]) simp
next
  case (Inr v)
  then have "snd (safeExecute stg operation (message stg) run)
        = run\<lparr>events := events run @ fst operation,
               invoked := invoked run @ [stg], failed := failed run @ []\<rparr>"
    by (simp add: safeExecute_def invoke_def)
  then show ?thesis unfolding extendsBy_def
    by (intro exI[of _ "fst operation"] exI[of _ "[]"]) (simp add: diagnosed_Nil)
qed

lemma extendsBy_unifiedSearch:
  "extendsBy unifiedMessage (if useWeb p then [Search] else []) run (snd (unifiedSearch ag p run))"
proof (cases "useWeb p")
  case False
  then show ?thesis by (simp add: unifiedSearch_def extendsBy_refl)
next
  case True
  let ?r = "safeExecute Search (performWebSearch ag p) msgWebSearchFailed run"
  have a: "extendsBy unifiedMessage [Search] run (snd ?r)"
    using extendsBy_safeExecute[of unifiedMessage Search run "performWebSearch ag p"] by simp
  have "snd (unifiedSearch ag p run) = snd ?r \<or>
        (\<exists>srcs. snd (unifiedSearch ag p run) = emit ''sources'' (PSources srcs) (snd ?r))"
    using True by (auto simp: unifiedSearch_def Let_def case_prod_beta)
  then show ?thesis
    using True a extendsBy_trans[OF a extendsBy_emit] by auto
qed

lemma extendsBy_unifiedResearch:
  "extendsBy unifiedMessage [Research] run (snd (unifiedResearch ag sources run))"
proof -
  let ?r = "safeExecute Research (extractFacts ag sources) msgExtractFailed run"
  have a: "extendsBy unifiedMessage [Research] run (snd ?r)"
    using extendsBy_safeExecute[of unifiedMessage Research run "extractFacts ag sources"] by simp
  have "snd (unifiedResearch ag sources run) = snd ?r \<or>
        (\<exists>fs. snd (unifiedResearch ag sources run) = emit ''facts'' (PFacts fs) (snd ?r))"
    by (auto simp: unifiedResearch_def Let_def case_prod_beta)
  then show ?thesis
    using a extendsBy_trans[OF a extendsBy_emit] by auto
qed

lemma extendsBy_unifiedAnalysis:
  "extendsBy unifiedMessage [Analysis] run (snd (unifiedAnalysis ag facts run))"
  using extendsBy_safeExecute[of unifiedMessage Analysis run "analyze ag facts"]
  by (simp add: unifiedAnalysis_def Let_def case_prod_beta)

lemma extendsBy_unifiedWriting:
  "extendsBy unifiedMessage [Writing] run (unifiedWriting ag analysis facts run)"
  using extendsBy_safeExecute[of unifiedMessage Writing run "performOptimizedWriting ag analysis facts"]
  by (simp add: unifiedWriting_def)

lemma extendsBy_unifiedFactCheck:
  "extendsBy unifiedMessage (if speedMode settings \<noteq> fast then [FactCheck] else []) run
     (unifiedFactCheck ag settings sources run)"
  using extendsBy_safeExecute[of unifiedMessage FactCheck run "factCheckOperation ag sources"]
  by (simp add: unifiedFactCheck_def extendsBy_refl)

lemma extendsBy_unifiedCritique:
  "extendsBy unifiedMessage (if speedMode settings = thorough then [Critique] else []) run
     (unifiedCritique ag settings run)"
  using extendsBy_safeExecute[of unifiedMessage Critique run "critiqueOperation ag"]
  by (simp add: unifiedCritique_def extendsBy_refl)

lemma extendsBy_unifiedFinish: "extendsBy unifiedMessage [] run (unifiedFinish ag run)"
  using extendsBy_trans[OF extendsBy_emit extendsBy_emit]
  by (simp add: unifiedFinish_def)

lemma unifiedCompleted_unifiedFinish: "unifiedCompleted ag (unifiedFinish ag run)"
  by (simp add: unifiedCompleted_def unifiedFinish_def emit_def)

lemma unified_with_plan:
  assumes "snd (plan ag) = Inr p"
  shows "extendsBy unifiedMessage (unifiedStages p settings) emptyRun (unifiedRunPipeline ag settings) \<and>
         unifiedCompleted ag (unifiedRunPipeline ag settings)"
proof -
  let ?r1 = "snd (safeExecute Router (plan ag) msgRouterFailed emptyRun)"
  let ?r2 = "emit ''router'' (PPlan p) ?r1"
  let ?s3 = "unifiedSearch ag p ?r2"
  let ?s4 = "unifiedResearch ag (fst ?s3) (snd ?s3)"
  let ?s5 = "unifiedAnalysis ag (fst ?s4) (snd ?s4)"
  let ?r6 = "unifiedWriting ag (fst ?s5) (fst ?s4) (snd ?s5)"
  let ?r7 = "unifiedFactCheck ag settings (fst ?s3) ?r6"
  let ?r8 = "unifiedCritique ag settings ?r7"
  have fst1: "fst (safeExecute Router (plan ag) msgRouterFailed emptyRun) = Some p"
    using assms by (simp add: safeExecute_def invoke_def)
  have run: "unifiedRunPipeline ag settings = unifiedFinish ag ?r8"
    using fst1 by (simp add: unifiedRunPipeline_def Let_def case_prod_beta)
  have e1: "extendsBy unifiedMessage [Router] emptyRun ?r1"
    using extendsBy_safeExecute[of unifiedMessage Router emptyRun "plan ag"] by simp
  note e2 = extendsBy_trans[OF e1 extendsBy_emit[where name="''router''" and p="PPlan p"]]
  note e3 = extendsBy_trans[OF e2 extendsBy_unifiedSearch[where ag=ag and p=p]]
  note e4 = extendsBy_trans[OF e3 extendsBy_unifiedResearch[where ag=ag and sources="fst ?s3"]]
  note e5 = extendsBy_trans[OF e4 extendsBy_unifiedAnalysis[where ag=ag and facts="fst ?s4"]]
  note e6 = extendsBy_trans[OF e5
      extendsBy_unifiedWriting[where ag=ag and analysis="fst ?s5" and facts="fst ?s4"]]
  note e7 = extendsBy_trans[OF e6
      extendsBy_unifiedFactCheck[where ag=ag and settings=settings and sources="fst ?s3"]]
  note e8 = extendsBy_trans[OF e7 extendsBy_unifiedCritique[where ag=ag and settings=settings]]
  note e9 = extendsBy_trans[OF e8 extendsBy_unifiedFinish[where ag=ag]]
  have "extendsBy unifiedMessage (unifiedStages p settings) emptyRun (unifiedFinish ag ?r8)"
    using e9 by (simp add: unifiedStages_def)
  with run unifiedCompleted_unifiedFinish show ?thesis by simp
qed

lemma unified_without_plan:
  assumes "snd (plan ag) = Inl e"
  shows "unifiedRunPipeline ag settings =
           \<lparr>events = fst (plan ag) @ [(''error'', errorPayload msgRouterFailed e)],
            invoked = [Router], failed = [(Router, e)]\<rparr>"
  using assms by (simp add: unifiedRunPipeline_def safeExecute_def invoke_def emit_def emptyRun_def)

subsection \<open>\<^verbatim>\<open>ResearchPipeline\<close>\<close>

lemma okStep_I:
  "events run' = events run @ evs @ ending \<Longrightarrow> invoked run' = invoked run @ stgs \<Longrightarrow>
   failed run' = failed run @ fl \<Longrightarrow> diagnosed researchMessage fl (evs @ ending) \<Longrightarrow>
   list_all (\<lambda>(stg, e). handledLocally stg) fl \<Longrightarrow> okStep stgs ending run run'"
  unfolding okStep_def by blast

lemma abortStep_I:
  "events run' = events run @ evs \<Longrightarrow> invoked run' = invoked run @ pre @ [stg] \<Longrightarrow>
   failed run' = failed run @ fl @ [(stg, e)] \<Longrightarrow> \<not> handledLocally stg \<Longrightarrow>
   diagnosed researchMessage fl evs \<Longrightarrow>
   list_all (\<lambda>(stg, e). handledLocally stg) fl \<Longrightarrow> abortStep e run run'"
  unfolding abortStep_def by blast

lemma spec_emitE: "actionSpec [] [(name, p)] (emitE name p)"
  unfolding actionSpec_def
  by (auto simp: emitE_def emit_def intro!: okStep_I[where evs="[]" and fl="[]"] diagnosed_Nil)

lemma spec_returnE: "actionSpec [] [] (returnE v)"
  unfolding actionSpec_def
  by (auto simp: returnE_def intro!: okStep_I[where evs="[]" and fl="[]"] diagnosed_Nil)

lemma spec_invoke: "\<not> handledLocally stg \<Longrightarrow> actionSpec [stg] [] (invoke stg operation)"
  unfolding actionSpec_def
proof (intro allI)
  fix run
  assume nh: "\<not> handledLocally stg"
  show "case invoke stg operation run of
          (Inl e, run') \<Rightarrow> abortStep e run run' | (Inr v, run') \<Rightarrow> okStep [stg] [] run run'"
  proof (cases "snd operation")
    case (Inl e)
    have "abortStep e run (snd (invoke stg operation run))"
      using Inl nh
      by (intro abortStep_I[where evs="fst operation" and fl="[]" and pre="[]" and stg=stg])
         (simp_all add: invoke_def diagnosed_Nil)
    with Inl show ?thesis by (simp add: invoke_def)
  next
    case (Inr v)
    have "okStep [stg] [] run (snd (invoke stg operation run))"
      using Inr
      by (intro okStep_I[where evs="fst operation" and fl="[]"])
         (simp_all add: invoke_def diagnosed_Nil)
    with Inr show ?thesis by (simp add: invoke_def)
  qed
qed

lemma okStep_trans:
  assumes "okStep s1 t1 a b" and "okStep s2 t2 b c"
  shows "okStep (s1 @ s2) t2 a c"
proof -
  from assms(1) obtain e1 f1 where 1: "events b = events a @ e1 @ t1" "invoked b = invoked a @ s1"
    "failed b = failed a @ f1" "diagnosed researchMessage f1 (e1 @ t1)"
    "list_all (\<lambda>(stg, e). handledLocally stg) f1"
    unfolding okStep_def by blast
  from assms(2) obtain e2 f2 where 2: "events c = events b @ e2 @ t2" "invoked c = invoked b @ s2"
    "failed c = failed b @ f2" "diagnosed researchMessage f2 (e2 @ t2)"
    "list_all (\<lambda>(stg, e). handledLocally stg) f2"
    unfolding okStep_def by blast
  from diagnosed_more_events[OF 1(4), of "[]" "e2 @ t2"]
  have d1: "diagnosed researchMessage f1 ((e1 @ t1 @ e2) @ t2)" by simp
  from diagnosed_more_events[OF 2(4), of "e1 @ t1" "[]"]
  have d2: "diagnosed researchMessage f2 ((e1 @ t1 @ e2) @ t2)" by simp
  show ?thesis
    using 1 2 d1 d2
    by (intro okStep_I[where evs="e1 @ t1 @ e2" and fl="f1 @ f2"]) (simp_all add: diagnosed_append)
qed

lemma okStep_abortStep:
  assumes "okStep s1 t1 a b" and "abortStep e b c"
  shows "abortStep e a c"
proof -
  from assms(1) obtain e1 f1 where 1: "events b = events a @ e1 @ t1" "invoked b = invoked a @ s1"
    "failed b = failed a @ f1" "diagnosed researchMessage f1 (e1 @ t1)"
    "list_all (\<lambda>(stg, e). handledLocally stg) f1"
    unfolding okStep_def by blast
  from assms(2) obtain e2 f2 pre stg where 2: "events c = events b @ e2"
    "invoked c = invoked b @ pre @ [stg]" "failed c = failed b @ f2 @ [(stg, e)]"
    "\<not> handledLocally stg" "diagnosed researchMessage f2 e2"
    "list_all (\<lambda>(stg, e). handledLocally stg) f2"
    unfolding abortStep_def by blast
  from diagnosed_more_events[OF 1(4), of "[]" "e2"]
  have d1: "diagnosed researchMessage f1 (e1 @ t1 @ e2)" by simp
  from diagnosed_more_events[OF 2(5), of "e1 @ t1" "[]"]
  have d2: "diagnosed researchMessage f2 (e1 @ t1 @ e2)" by simp
  show ?thesis
    using 1 2 d1 d2
    by (intro abortStep_I[where evs="e1 @ t1 @ e2" and fl="f1 @ f2" and pre="s1 @ pre" and stg=stg])
       (simp_all add: diagnosed_append)
qed

lemma spec_bindE:
  assumes m: "actionSpec s1 t1 m" and f: "\<And>v. actionSpec s2 t2 (f v)" and s: "stgs = s1 @ s2"
  shows "actionSpec stgs t2 (bindE m f)"
  unfolding actionSpec_def
proof (intro allI)
  fix run
  obtain r run1 where mr: "m run = (r, run1)" by (cases "m run") auto
  show "case bindE m f run of
          (Inl e, run') \<Rightarrow> abortStep e run run' | (Inr v, run') \<Rightarrow> okStep stgs t2 run run'"
  proof (cases r)
    case (Inl e)
    with m mr have "abortStep e run run1" by (auto simp: actionSpec_def dest: spec[of _ run])
    with Inl mr show ?thesis by (simp add: bindE_def)
  next
    case (Inr v)
    with m mr have ok: "okStep s1 t1 run run1" by (auto simp: actionSpec_def dest: spec[of _ run])
    obtain r2 run2 where fr: "f v run1 = (r2, run2)" by (cases "f v run1") auto
    have b: "bindE m f run = (r2, run2)" using mr Inr fr by (simp add: bindE_def)
    show ?thesis
    proof (cases r2)
      case (Inl e)
      with f[of v] fr have "abortStep e run1 run2"
        by (auto simp: actionSpec_def dest: spec[of _ run1])
      from okStep_abortStep[OF ok this] Inl b show ?thesis by simp
    next
      case (Inr w)
      with f[of v] fr have "okStep s2 t2 run1 run2"
        by (auto simp: actionSpec_def dest: spec[of _ run1])
      from okStep_trans[OF ok this] Inr b s show ?thesis by simp
    qed
  qed
qed


lemma spec_researchSearch:
  "actionSpec (if useWeb p then [Search] else []) [] (researchSearch ag p)"
proof (cases "useWeb p")
  case False
  then show ?thesis by (simp add: researchSearch_def spec_returnE)
next
  case True
  let ?st = "(''status'', statusPayload ''search'' statusSearch)"
  show ?thesis
    unfolding actionSpec_def
  proof (intro allI)
    fix run
    show "case researchSearch ag p run of
            (Inl e, run') \<Rightarrow> abortStep e run run'
          | (Inr v, run') \<Rightarrow> okStep (if useWeb p then [Search] else []) [] run run'"
    proof (cases "snd (performWebSearch ag p)")
      case (Inr srcs)
      have r: "researchSearch ag p run =
        (Inr srcs, run\<lparr>events := events run @ ([?st] @ fst (performWebSearch ag p) @ [(''sources'', PSources srcs)]),
                       invoked := invoked run @ [Search], failed := failed run @ []\<rparr>)"
        using True Inr
        by (simp add: researchSearch_def tryCatch_def bindE_def emitE_def emit_def invoke_def returnE_def)
      show ?thesis
        unfolding r using True
        by (auto intro!: okStep_I[where fl="[]"
              and evs="[?st] @ fst (performWebSearch ag p) @ [(''sources'', PSources srcs)]"]
            simp: diagnosed_Nil)
    next
      case (Inl e)
      have r: "researchSearch ag p run =
        (Inr [], run\<lparr>events := events run @ ([?st] @ fst (performWebSearch ag p)
                                   @ [(''error'', errorPayload msgSearchFailed e)]),
                     invoked := invoked run @ [Search], failed := failed run @ [(Search, e)]\<rparr>)"
        using True Inl
        by (simp add: researchSearch_def tryCatch_def bindE_def emitE_def emit_def invoke_def returnE_def)
      show ?thesis
        unfolding r using True
        by (auto intro!: okStep_I[where fl="[(Search, e)]"
              and evs="[?st] @ fst (performWebSearch ag p) @ [(''error'', errorPayload msgSearchFailed e)]"]
            simp: diagnosed_def)
    qed
  qed
qed

lemma spec_researchFacts: "actionSpec [Research] [] (researchFacts ag sources)"
  unfolding actionSpec_def
proof (intro allI)
  fix run
  let ?st = "(''status'', statusPayload ''research'' statusResearch)"
  show "case researchFacts ag sources run of
          (Inl e, run') \<Rightarrow> abortStep e run run' | (Inr v, run') \<Rightarrow> okStep [Research] [] run run'"
  proof (cases "snd (extractFacts ag sources)")
    case (Inr fs)
    have r: "researchFacts ag sources run =
      (Inr fs, run\<lparr>events := events run @ ([?st] @ fst (extractFacts ag sources) @ [(''facts'', PFacts fs)]),
                   invoked := invoked run @ [Research], failed := failed run @ []\<rparr>)"
      using Inr
      by (simp add: researchFacts_def tryCatch_def bindE_def emitE_def emit_def invoke_def returnE_def)
    show ?thesis
      unfolding r
      by (auto intro!: okStep_I[where fl="[]"
            and evs="[?st] @ fst (extractFacts ag sources) @ [(''facts'', PFacts fs)]"]
          simp: diagnosed_Nil)
  next
    case (Inl e)
    have r: "researchFacts ag sources run =
      (Inr [], run\<lparr>events := events run @ ([?st] @ fst (extractFacts ag sources)
                                 @ [(''error'', errorPayload msgExtractFailed e), (''facts'', PFacts [])]),
                   invoked := invoked run @ [Research], failed := failed run @ [(Research, e)]\<rparr>)"
      using Inl
      by (simp add: researchFacts_def tryCatch_def bindE_def emitE_def emit_def invoke_def returnE_def)
    show ?thesis
      unfolding r
      by (auto intro!: okStep_I[where fl="[(Research, e)]"
            and evs="[?st] @ fst (extractFacts ag sources)
                       @ [(''error'', errorPayload msgExtractFailed e), (''facts'', PFacts [])]"]
          simp: diagnosed_def)
  qed
qed

lemma spec_performCredibilityAssessment:
  "actionSpec [Credibility] [] (performCredibilityAssessment ag facts sources response)"
  unfolding actionSpec_def
proof (intro allI)
  fix run
  let ?op = "credibilityWork ag facts sources response"
  show "case performCredibilityAssessment ag facts sources response run of
          (Inl e, run') \<Rightarrow> abortStep e run run' | (Inr v, run') \<Rightarrow> okStep [Credibility] [] run run'"
  proof (cases "snd ?op")
    case (Inr u)
    have r: "performCredibilityAssessment ag facts sources response run =
      (Inr u, run\<lparr>events := events run @ fst ?op,
                  invoked := invoked run @ [Credibility], failed := failed run @ []\<rparr>)"
      using Inr
      by (simp add: performCredibilityAssessment_def tryCatch_def invoke_def)
    show ?thesis
      unfolding r
      by (auto intro!: okStep_I[where fl="[]" and evs="fst ?op"] simp: diagnosed_Nil)
  next
    case (Inl e)
    have r: "performCredibilityAssessment ag facts sources response run =
      (Inr (), run\<lparr>events := events run @ (fst ?op @ [(''error'', errorPayload msgCredibilityFailed e)]),
                   invoked := invoked run @ [Credibility], failed := failed run @ [(Credibility, e)]\<rparr>)"
      using Inl
      by (simp add: performCredibilityAssessment_def tryCatch_def emitE_def emit_def invoke_def)
    show ?thesis
      unfolding r
      by (auto intro!: okStep_I[where fl="[(Credibility, e)]"
            and evs="fst ?op @ [(''error'', errorPayload msgCredibilityFailed e)]"]
          simp: diagnosed_def)
  qed
qed

lemma spec_closing:
  "actionSpec [] [(''status'', statusPayload ''complete'' statusComplete),
                  (''performance'', performancePayload ag)]
     (bindE (emitE ''status'' (statusPayload ''complete'' statusComplete))
        (\<lambda>_. emitE ''performance'' (performancePayload ag)))"
  unfolding actionSpec_def
  by (auto simp: bindE_def emitE_def emit_def intro!: okStep_I[where evs="[]" and fl="[]"] diagnosed_Nil)

lemma spec_researchAfterPlan:
  "actionSpec ((if useWeb p then [Search] else [])
               @ [Research, Analysis, Writing, FactCheck, Critique, Credibility])
     [(''status'', statusPayload ''complete'' statusComplete), (''performance'', performancePayload ag)]
     (researchAfterPlan ag settings p)"
  unfolding researchAfterPlan_def
  apply (rule spec_bindE, rule spec_emitE)
   apply (rule spec_bindE, rule spec_researchSearch)
    apply (rule spec_bindE, rule spec_researchFacts)
     apply (rule spec_bindE, rule spec_emitE)
      apply (rule spec_bindE, rule spec_invoke, simp)
       apply (rule spec_bindE, rule spec_emitE)
        apply (rule spec_bindE, rule spec_emitE)
         apply (rule spec_bindE, rule spec_invoke, simp)
          apply (rule spec_bindE, rule spec_emitE)
           apply (rule spec_bindE, rule spec_emitE)
            apply (rule spec_bindE, rule spec_invoke, simp)
             apply (rule spec_bindE, rule spec_emitE)
              apply (rule spec_bindE, rule spec_emitE)
               apply (rule spec_bindE, rule spec_invoke, simp)
                apply (rule spec_bindE, rule spec_emitE)
                 apply (rule spec_bindE, rule spec_emitE)
                  apply (rule spec_bindE, rule spec_performCredibilityAssessment)
                   apply (rule spec_bindE, rule spec_emitE)
                    apply (rule spec_closing)
                   apply (rule refl)+
  apply simp
  done


lemma actionSpec_Inr:
  "actionSpec stgs ending m \<Longrightarrow> m run = (Inr v, run') \<Longrightarrow> okStep stgs ending run run'"
  unfolding actionSpec_def by (erule allE[of _ run]) simp

lemma actionSpec_Inl:
  "actionSpec stgs ending m \<Longrightarrow> m run = (Inl e, run') \<Longrightarrow> abortStep e run run'"
  unfolding actionSpec_def by (erule allE[of _ run]) simp

lemma researchMessage_unhandled: "\<not> handledLocally stg \<Longrightarrow> researchMessage stg = msgPipelineFailed"
  by (cases stg) simp_all

lemma research_shape:
  "(\<exists>p. snd (plan ag) = Inr p \<and>
        invoked (researchRunPipeline ag settings) = researchStages p \<and>
        researchCompleted ag (researchRunPipeline ag settings) \<and>
        list_all (\<lambda>(stg, e). handledLocally stg) (failed (researchRunPipeline ag settings)) \<and>
        diagnosed researchMessage (failed (researchRunPipeline ag settings))
          (events (researchRunPipeline ag settings))) \<or>
   (\<exists>fl stg e pre evs. failed (researchRunPipeline ag settings) = fl @ [(stg, e)] \<and>
        list_all (\<lambda>(stg, e). handledLocally stg) fl \<and> \<not> handledLocally stg \<and>
        invoked (researchRunPipeline ag settings) = pre @ [stg] \<and>
        events (researchRunPipeline ag settings)
          = evs @ [(''error'', errorPayload msgPipelineFailed e)] \<and>
        diagnosed researchMessage (failed (researchRunPipeline ag settings))
          (events (researchRunPipeline ag settings)))"
proof -
  define R where R_def: "R = researchRunPipeline ag settings"
  have "(\<exists>p. snd (plan ag) = Inr p \<and> invoked R = researchStages p \<and> researchCompleted ag R \<and>
              list_all (\<lambda>(stg, e). handledLocally stg) (failed R) \<and>
              diagnosed researchMessage (failed R) (events R)) \<or>
         (\<exists>fl stg e pre evs. failed R = fl @ [(stg, e)] \<and>
              list_all (\<lambda>(stg, e). handledLocally stg) fl \<and> \<not> handledLocally stg \<and>
              invoked R = pre @ [stg] \<and>
              events R = evs @ [(''error'', errorPayload msgPipelineFailed e)] \<and>
              diagnosed researchMessage (failed R) (events R))"
  proof (cases "snd (plan ag)")
    case (Inl e)
    let ?evs = "[(''status'', statusPayload ''router'' statusRouter)] @ fst (plan ag)"
    have r: "R = \<lparr>events = ?evs @ [(''error'', errorPayload msgPipelineFailed e)],
                  invoked = [] @ [Router], failed = [] @ [(Router, e)]\<rparr>"
      using Inl
      by (simp add: R_def researchRunPipeline_def researchBody_def tryCatch_def bindE_def emitE_def
          emit_def invoke_def emptyRun_def)
    have "diagnosed researchMessage (failed R) (events R)"
      unfolding r by (simp add: diagnosed_def)
    with r have "failed R = [] @ [(Router, e)] \<and>
                list_all (\<lambda>(stg, e). handledLocally stg) [] \<and> \<not> handledLocally Router \<and>
                invoked R = [] @ [Router] \<and>
                events R = ?evs @ [(''error'', errorPayload msgPipelineFailed e)] \<and>
                diagnosed researchMessage (failed R) (events R)"
      by simp
    then show ?thesis by blast
  next
    case (Inr p)
    let ?run1 = "\<lparr>events = [(''status'', statusPayload ''router'' statusRouter)] @ fst (plan ag),
                 invoked = [Router], failed = []\<rparr>"
    let ?ending = "[(''status'', statusPayload ''complete'' statusComplete),
                    (''performance'', performancePayload ag)]"
    let ?stgs = "(if useWeb p then [Search] else [])
                 @ [Research, Analysis, Writing, FactCheck, Critique, Credibility]"
    have body: "researchBody ag settings emptyRun = researchAfterPlan ag settings p ?run1"
      using Inr
      by (simp add: researchBody_def bindE_def emitE_def emit_def invoke_def emptyRun_def)
    obtain r run' where ap: "researchAfterPlan ag settings p ?run1 = (r, run')"
      by (cases "researchAfterPlan ag settings p ?run1") auto
    show ?thesis
    proof (cases r)
      case ok: (Inr u)
      with ap have "okStep ?stgs ?ending ?run1 run'"
        by (intro actionSpec_Inr[OF spec_researchAfterPlan]) simp
      then obtain evs fl where s: "events run' = events ?run1 @ evs @ ?ending"
        "invoked run' = invoked ?run1 @ ?stgs" "failed run' = failed ?run1 @ fl"
        "diagnosed researchMessage fl (evs @ ?ending)"
        "list_all (\<lambda>(stg, e). handledLocally stg) fl"
        unfolding okStep_def by blast
      have R: "R = run'"
        using body ap ok by (simp add: R_def researchRunPipeline_def tryCatch_def)
      have c: "researchCompleted ag R"
        unfolding researchCompleted_def R using s(1) by (intro exI[of _ "events ?run1 @ evs"]) simp
      have d: "diagnosed researchMessage (failed R) (events R)"
        unfolding R using s(1,3) diagnosed_more_events[OF s(4), of "events ?run1" "[]"] by simp
      have "invoked R = researchStages p" unfolding R using s(2) by (simp add: researchStages_def)
      with Inr c d s(3,5) R show ?thesis by auto
    next
      case ab: (Inl e)
      with ap have "abortStep e ?run1 run'"
        by (intro actionSpec_Inl[OF spec_researchAfterPlan]) simp
      then obtain evs fl pre stg where s: "events run' = events ?run1 @ evs"
        "invoked run' = invoked ?run1 @ pre @ [stg]" "failed run' = failed ?run1 @ fl @ [(stg, e)]"
        "\<not> handledLocally stg" "diagnosed researchMessage fl evs"
        "list_all (\<lambda>(stg, e). handledLocally stg) fl"
        unfolding abortStep_def by blast
      have R: "R = emit ''error'' (errorPayload msgPipelineFailed e) run'"
        using body ap ab by (simp add: R_def researchRunPipeline_def tryCatch_def emitE_def)
      have ev: "events R = (events ?run1 @ evs) @ [(''error'', errorPayload msgPipelineFailed e)]"
        unfolding R using s(1) by (simp add: emit_def)
      have fa: "failed R = fl @ [(stg, e)]" unfolding R using s(3) by (simp add: emit_def)
      have iv: "invoked R = ([Router] @ pre) @ [stg]" unfolding R using s(2) by (simp add: emit_def)
      have d1: "diagnosed researchMessage fl (events R)"
        unfolding ev using diagnosed_more_events[OF s(5), of "events ?run1" "[(''error'', errorPayload msgPipelineFailed e)]"]
        by simp
      have d2: "diagnosed researchMessage [(stg, e)] (events R)"
        unfolding ev using researchMessage_unhandled[OF s(4)] by (simp add: diagnosed_def)
      have d: "diagnosed researchMessage (failed R) (events R)"
        unfolding fa using d1 d2 by (simp add: diagnosed_append)
      from fa s(6) s(4) iv ev d show ?thesis by blast
    qed
  qed
  then show ?thesis unfolding R_def .
qed

subsection \<open>Both pipelines\<close>

lemmas run_defs =
  unifiedRunPipeline_def safeExecute_def invoke_def emit_def emptyRun_def unifiedSearch_def
  unifiedResearch_def unifiedAnalysis_def unifiedWriting_def unifiedFactCheck_def
  unifiedCritique_def unifiedFinish_def factCheckOperation_def critiqueOperation_def
  researchRunPipeline_def researchBody_def researchAfterPlan_def researchSearch_def
  researchFacts_def performCredibilityAssessment_def tryCatch_def bindE_def emitE_def returnE_def

lemma unified_routerFails: "unifiedRunPipeline routerFails exampleSettings =
     \<lparr>events = [(''error'', errorPayload msgRouterFailed rateLimited)],
      invoked = [Router], failed = [(Router, rateLimited)]\<rparr>"
  by (simp add: run_defs routerFails_def exampleAgents_def)

lemma research_analysisFails: "invoked (researchRunPipeline analysisFails exampleSettings) = [Router, Search, Research, Analysis]"
  "last (events (researchRunPipeline analysisFails exampleSettings)) = (''error'', errorPayload msgPipelineFailed rateLimited)"
  by (simp_all add: run_defs analysisFails_def exampleAgents_def examplePlan_def)

lemma unified_searchAndWritingFail: "failed (unifiedRunPipeline searchAndWritingFail exampleSettings) = [(Search, rateLimited), (Writing, OtherValue)]"
  by (simp add: run_defs searchAndWritingFail_def exampleAgents_def examplePlan_def exampleSettings_def)

lemma research_extractionFails: "failed (researchRunPipeline extractionFails exampleSettings) = [(Research, rateLimited)]"
  by (simp add: run_defs extractionFails_def exampleAgents_def examplePlan_def exampleSettings_def)


lemma research_analysisFails_failed:
  "failed (researchRunPipeline analysisFails exampleSettings) = [(Analysis, rateLimited)]"
  by (simp add: run_defs analysisFails_def exampleAgents_def examplePlan_def)

lemma unified_searchAndWritingFail_events:
  "events (unifiedRunPipeline searchAndWritingFail exampleSettings) =
     [(''router'', PPlan examplePlan),
      (''error'', errorPayload msgWebSearchFailed rateLimited),
      (''error'', errorPayload msgWritingFailed OtherValue),
      (''factcheck'', PReport \<lparr>claims = [], summary = None\<rparr>),
      (''critique'', PObject [(''feedback'', PString (ascii ''fine''))]),
      (''tokens'', PUsage \<lparr>prompt = 0, completion = 0, total = 0\<rparr>),
      (''done'', PObject [])]"
  by (simp add: run_defs searchAndWritingFail_def exampleAgents_def examplePlan_def
      exampleSettings_def)

text \<open>
  C3, as amended. In \<^verbatim>\<open>UnifiedResearchPipeline\<close>, once the router has returned a plan,
  every stage that the plan and the speed mode enable is called, in order, whatever the
  stages throw; every failure has its error event with the message of its stage; a failed
  search or fact extraction yields the empty list and a failed analysis the default text;
  and the run ends with the \<^verbatim>\<open>tokens\<close> and \<^verbatim>\<open>done\<close> events. When the router throws, its
  error event is emitted and the run ends there. In \<^verbatim>\<open>ResearchPipeline\<close> every failure has
  an error event; the search, fact-extraction and credibility stages have handlers of their
  own (search and extraction yield the empty list), and when no other stage throws, all
  stages are called and the run ends with its closing events; a failure of the router,
  analysis, writing, fact-check or critique stage is the last stage called and the run ends
  with the error event of the pipeline.
\<close>

theorem pipelines_recover_stage_failures:
  "(\<forall>p. snd (plan ag) = Inr p \<longrightarrow>
      invoked (unifiedRunPipeline ag settings) = unifiedStages p settings \<and>
      unifiedCompleted ag (unifiedRunPipeline ag settings) \<and>
      diagnosed unifiedMessage (failed (unifiedRunPipeline ag settings))
        (events (unifiedRunPipeline ag settings))) \<and>
   (\<forall>e. snd (plan ag) = Inl e \<longrightarrow>
      unifiedRunPipeline ag settings =
        \<lparr>events = fst (plan ag) @ [(''error'', errorPayload msgRouterFailed e)],
         invoked = [Router], failed = [(Router, e)]\<rparr>) \<and>
   (\<forall>e. snd (performWebSearch ag p') = Inl e \<longrightarrow> fst (unifiedSearch ag p' run) = []) \<and>
   (\<forall>e. snd (extractFacts ag sources) = Inl e \<longrightarrow> fst (unifiedResearch ag sources run) = []) \<and>
   (\<forall>e. snd (analyze ag facts) = Inl e \<longrightarrow> fst (unifiedAnalysis ag facts run) = defaultAnalysis) \<and>
   diagnosed researchMessage (failed (researchRunPipeline ag settings))
     (events (researchRunPipeline ag settings)) \<and>
   (list_all (\<lambda>(stg, e). handledLocally stg) (failed (researchRunPipeline ag settings)) \<longrightarrow>
      (\<exists>p. snd (plan ag) = Inr p \<and> invoked (researchRunPipeline ag settings) = researchStages p) \<and>
      researchCompleted ag (researchRunPipeline ag settings)) \<and>
   (\<forall>stg e. (stg, e) \<in> set (failed (researchRunPipeline ag settings)) \<and> \<not> handledLocally stg \<longrightarrow>
      last (invoked (researchRunPipeline ag settings)) = stg \<and>
      last (events (researchRunPipeline ag settings)) = (''error'', errorPayload msgPipelineFailed e)) \<and>
   (\<forall>e. snd (performWebSearch ag p') = Inl e \<longrightarrow> fst (researchSearch ag p' run) = Inr []) \<and>
   (\<forall>e. snd (extractFacts ag sources) = Inl e \<longrightarrow> fst (researchFacts ag sources run) = Inr [])"
proof -
  have u1: "\<forall>p. snd (plan ag) = Inr p \<longrightarrow>
      invoked (unifiedRunPipeline ag settings) = unifiedStages p settings \<and>
      unifiedCompleted ag (unifiedRunPipeline ag settings) \<and>
      diagnosed unifiedMessage (failed (unifiedRunPipeline ag settings))
        (events (unifiedRunPipeline ag settings))"
  proof (intro allI impI)
    fix p assume "snd (plan ag) = Inr p"
    from unified_with_plan[OF this, of settings]
    show "invoked (unifiedRunPipeline ag settings) = unifiedStages p settings \<and>
      unifiedCompleted ag (unifiedRunPipeline ag settings) \<and>
      diagnosed unifiedMessage (failed (unifiedRunPipeline ag settings))
        (events (unifiedRunPipeline ag settings))"
      by (auto simp: extendsBy_def emptyRun_def)
  qed
  have u2: "\<forall>e. snd (plan ag) = Inl e \<longrightarrow>
      unifiedRunPipeline ag settings =
        \<lparr>events = fst (plan ag) @ [(''error'', errorPayload msgRouterFailed e)],
         invoked = [Router], failed = [(Router, e)]\<rparr>"
    using unified_without_plan by blast
  have u3: "\<forall>e. snd (performWebSearch ag p') = Inl e \<longrightarrow> fst (unifiedSearch ag p' run) = []"
    by (auto simp: unifiedSearch_def safeExecute_def invoke_def Let_def)
  have u4: "\<forall>e. snd (extractFacts ag sources) = Inl e \<longrightarrow> fst (unifiedResearch ag sources run) = []"
    by (auto simp: unifiedResearch_def safeExecute_def invoke_def Let_def)
  have u5: "\<forall>e. snd (analyze ag facts) = Inl e \<longrightarrow> fst (unifiedAnalysis ag facts run) = defaultAnalysis"
    by (auto simp: unifiedAnalysis_def safeExecute_def invoke_def Let_def)
  have r4: "\<forall>e. snd (performWebSearch ag p') = Inl e \<longrightarrow> fst (researchSearch ag p' run) = Inr []"
    by (auto simp: researchSearch_def tryCatch_def bindE_def emitE_def invoke_def returnE_def)
  have r5: "\<forall>e. snd (extractFacts ag sources) = Inl e \<longrightarrow> fst (researchFacts ag sources run) = Inr []"
    by (auto simp: researchFacts_def tryCatch_def bindE_def emitE_def invoke_def returnE_def)
  let ?R = "researchRunPipeline ag settings"
  note shape = research_shape[of ag settings]
  have r1: "diagnosed researchMessage (failed ?R) (events ?R)"
    using shape by blast
  have r2: "list_all (\<lambda>(stg, e). handledLocally stg) (failed ?R) \<longrightarrow>
      (\<exists>p. snd (plan ag) = Inr p \<and> invoked ?R = researchStages p) \<and> researchCompleted ag ?R"
  proof
    assume h: "list_all (\<lambda>(stg, e). handledLocally stg) (failed ?R)"
    from shape show "(\<exists>p. snd (plan ag) = Inr p \<and> invoked ?R = researchStages p) \<and>
        researchCompleted ag ?R"
    proof
      assume "\<exists>p. snd (plan ag) = Inr p \<and> invoked ?R = researchStages p \<and>
        researchCompleted ag ?R \<and>
        list_all (\<lambda>(stg, e). handledLocally stg) (failed ?R) \<and>
        diagnosed researchMessage (failed ?R) (events ?R)"
      then show ?thesis by blast
    next
      assume "\<exists>fl stg e pre evs. failed ?R = fl @ [(stg, e)] \<and>
        list_all (\<lambda>(stg, e). handledLocally stg) fl \<and> \<not> handledLocally stg \<and>
        invoked ?R = pre @ [stg] \<and>
        events ?R = evs @ [(''error'', errorPayload msgPipelineFailed e)] \<and>
        diagnosed researchMessage (failed ?R) (events ?R)"
      then obtain fl stg e where "failed ?R = fl @ [(stg, e)]" "\<not> handledLocally stg" by blast
      with h show ?thesis by simp
    qed
  qed
  have r3: "\<forall>stg e. (stg, e) \<in> set (failed ?R) \<and> \<not> handledLocally stg \<longrightarrow>
      last (invoked ?R) = stg \<and>
      last (events ?R) = (''error'', errorPayload msgPipelineFailed e)"
  proof (intro allI impI)
    fix stg e assume a: "(stg, e) \<in> set (failed ?R) \<and> \<not> handledLocally stg"
    from shape show "last (invoked ?R) = stg \<and>
      last (events ?R) = (''error'', errorPayload msgPipelineFailed e)"
    proof
      assume "\<exists>p. snd (plan ag) = Inr p \<and> invoked ?R = researchStages p \<and>
        researchCompleted ag ?R \<and>
        list_all (\<lambda>(stg, e). handledLocally stg) (failed ?R) \<and>
        diagnosed researchMessage (failed ?R) (events ?R)"
      then have "list_all (\<lambda>(stg, e). handledLocally stg) (failed ?R)" by blast
      with a show ?thesis by (auto simp: list_all_iff)
    next
      assume "\<exists>fl stg e pre evs. failed ?R = fl @ [(stg, e)] \<and>
        list_all (\<lambda>(stg, e). handledLocally stg) fl \<and> \<not> handledLocally stg \<and>
        invoked ?R = pre @ [stg] \<and>
        events ?R = evs @ [(''error'', errorPayload msgPipelineFailed e)] \<and>
        diagnosed researchMessage (failed ?R) (events ?R)"
      then obtain fl stg' e' pre evs where s: "failed ?R = fl @ [(stg', e')]"
        "list_all (\<lambda>(stg, e). handledLocally stg) fl"
        "invoked ?R = pre @ [stg']"
        "events ?R = evs @ [(''error'', errorPayload msgPipelineFailed e')]"
        by blast
      from a s(1,2) have "(stg, e) = (stg', e')" by (auto simp: list_all_iff)
      with s(3,4) show ?thesis by simp
    qed
  qed
  from u1 u2 u3 u4 u5 r1 r2 r3 r4 r5 show ?thesis by blast
qed

theorem pipelines_recover_stage_failures_witness:
  "invoked (unifiedRunPipeline searchAndWritingFail exampleSettings)
     = [Router, Search, Research, Analysis, Writing, FactCheck, Critique] \<and>
   unifiedCompleted searchAndWritingFail (unifiedRunPipeline searchAndWritingFail exampleSettings) \<and>
   failed (unifiedRunPipeline searchAndWritingFail exampleSettings)
     = [(Search, rateLimited), (Writing, OtherValue)] \<and>
   diagnosed unifiedMessage [(Search, rateLimited), (Writing, OtherValue)]
     (events (unifiedRunPipeline searchAndWritingFail exampleSettings)) \<and>
   failed (researchRunPipeline extractionFails exampleSettings) = [(Research, rateLimited)] \<and>
   invoked (researchRunPipeline extractionFails exampleSettings)
     = [Router, Search, Research, Analysis, Writing, FactCheck, Critique, Credibility] \<and>
   researchCompleted extractionFails (researchRunPipeline extractionFails exampleSettings) \<and>
   failed (researchRunPipeline analysisFails exampleSettings) = [(Analysis, rateLimited)] \<and>
   last (invoked (researchRunPipeline analysisFails exampleSettings)) = Analysis \<and>
   last (events (researchRunPipeline analysisFails exampleSettings))
     = (''error'', errorPayload msgPipelineFailed rateLimited)"
proof -
  have p1: "snd (plan searchAndWritingFail) = Inr examplePlan"
    by (simp add: searchAndWritingFail_def exampleAgents_def)
  from pipelines_recover_stage_failures [of searchAndWritingFail exampleSettings] p1
  have u: "invoked (unifiedRunPipeline searchAndWritingFail exampleSettings)
             = unifiedStages examplePlan exampleSettings"
    "unifiedCompleted searchAndWritingFail (unifiedRunPipeline searchAndWritingFail exampleSettings)"
    "diagnosed unifiedMessage (failed (unifiedRunPipeline searchAndWritingFail exampleSettings))
       (events (unifiedRunPipeline searchAndWritingFail exampleSettings))"
    by blast+
  have st: "unifiedStages examplePlan exampleSettings
              = [Router, Search, Research, Analysis, Writing, FactCheck, Critique]"
    by (simp add: unifiedStages_def examplePlan_def exampleSettings_def)
  have p2: "snd (plan extractionFails) = Inr examplePlan"
    by (simp add: extractionFails_def exampleAgents_def)
  have h: "list_all (\<lambda>(stg, e). handledLocally stg)
             (failed (researchRunPipeline extractionFails exampleSettings))"
    by (simp add: research_extractionFails)
  from pipelines_recover_stage_failures [of extractionFails exampleSettings] h p2
  have r: "invoked (researchRunPipeline extractionFails exampleSettings) = researchStages examplePlan"
    "researchCompleted extractionFails (researchRunPipeline extractionFails exampleSettings)"
    by auto
  have rs: "researchStages examplePlan
              = [Router, Search, Research, Analysis, Writing, FactCheck, Critique, Credibility]"
    by (simp add: researchStages_def examplePlan_def)
  have m: "(Analysis, rateLimited) \<in> set (failed (researchRunPipeline analysisFails exampleSettings))
           \<and> \<not> handledLocally Analysis"
    by (simp add: research_analysisFails_failed)
  from pipelines_recover_stage_failures [of analysisFails exampleSettings] m
  have a: "last (invoked (researchRunPipeline analysisFails exampleSettings)) = Analysis"
    "last (events (researchRunPipeline analysisFails exampleSettings))
       = (''error'', errorPayload msgPipelineFailed rateLimited)"
    by blast+
  from u st r rs a show ?thesis
    by (simp add: unified_searchAndWritingFail research_extractionFails research_analysisFails_failed)
qed

text \<open>
  The claim as stated fails at a router that throws in the unified pipeline (one error event,
  no other stage called, no \<^verbatim>\<open>done\<close>), and at an analysis stage that throws in
  \<^verbatim>\<open>ResearchPipeline\<close> (the writing, fact-check, critique and credibility stages are not
  called; the last event is the error event of the pipeline).
\<close>

theorem stage_failure_ends_run_counterexample:
  "unifiedRunPipeline routerFails exampleSettings =
     \<lparr>events = [(''error'', errorPayload msgRouterFailed rateLimited)],
      invoked = [Router], failed = [(Router, rateLimited)]\<rparr> \<and>
   invoked (researchRunPipeline analysisFails exampleSettings)
     = [Router, Search, Research, Analysis] \<and>
   last (events (researchRunPipeline analysisFails exampleSettings))
     = (''error'', errorPayload msgPipelineFailed rateLimited)"
  by (simp add: unified_routerFails research_analysisFails)

end
